theory Spec2Isabelle
  imports Main "HOL-Library.Word"
begin

unbundle bit_operations_syntax

section \<open>Data of decode-example.c\<close>

text \<open>
  \<open>unsigned int\<close> is a 32-bit word. A pointer is \<open>None\<close> when it is \<open>NULL\<close> and
  \<open>Some\<close> of an address otherwise. A \<open>void *\<close> that only carries an integer
  (\<open>(void *)((uintptr_t)(n))\<close>) is kept as that integer; \<open>NULL\<close> is 0 there, which is
  why a context 0 and no context are the same value.
\<close>

type_synonym uint = "32 word"
type_synonym ptr = "nat option"
type_synonym voidp = "32 word"

datatype Retval = RETVAL_OK | RETVAL_ERROR | RETVAL_EOS

fun Retval_value :: "Retval \<Rightarrow> int" where
  "Retval_value RETVAL_OK = 0"
| "Retval_value RETVAL_ERROR = 1"
| "Retval_value RETVAL_EOS = 2"

text \<open>
  imxvpuapi.h is not among the sources. The four output-code masks the example tests are
  therefore a parameter of the model: every theorem below holds for any values of them.
\<close>

record output_codes =
  IMX_VPU_DEC_OUTPUT_CODE_INITIAL_INFO_AVAILABLE :: uint
  IMX_VPU_DEC_OUTPUT_CODE_DECODED_PICTURE_AVAILABLE :: uint
  IMX_VPU_DEC_OUTPUT_CODE_DROPPED :: uint
  IMX_VPU_DEC_OUTPUT_CODE_EOS :: uint

text \<open>
  The return code of an engine call, of which the example only needs to know whether it
  reports a failure; the enumeration itself is in the absent header.
\<close>

datatype ImxVpuDecReturnCodes = IMX_VPU_DEC_RETURN_CODE_OK | IMX_VPU_DEC_RETURN_CODE_ERROR

record h264_context =
  in_buffer :: nat
  au_start_offset :: nat
  au_end_offset :: nat

record ImxVpuDecInitialInfo =
  frame_width :: uint
  frame_height :: uint
  frame_rate_numerator :: uint
  frame_rate_denominator :: uint
  min_num_required_framebuffers :: uint
  interlacing :: int
  width_height_ratio :: uint
  framebuffer_alignment :: uint

record ImxVpuDecFramebufferSizes =
  aligned_frame_width :: uint
  aligned_frame_height :: uint
  y_stride :: uint
  cbcr_stride :: uint
  y_size :: uint
  cbcr_size :: uint
  mvcol_size :: uint
  total_size :: uint

record ImxVpuFramebuffer =
  dma_buffer :: ptr
  fb_sizes :: ImxVpuDecFramebufferSizes
  fb_context :: voidp

record ImxVpuEncodedFrame =
  virtual_address :: ptr
  data_size :: uint
  codec_data :: ptr
  codec_data_size :: uint
  frame_context :: voidp

text \<open>
  A decoded picture as \<open>imx_vpu_dec_get_decoded_picture\<close> hands it out: the pointer to
  the framebuffer slot, what \<open>framebuffer->dma_buffer\<close> reads through that pointer, and
  the context of the encoded frame it came from.
\<close>

record ImxVpuPicture =
  framebuffer :: ptr
  framebuffer_dma_buffer :: ptr
  picture_context :: voidp

text \<open>
  Modelled from the spec: the engine behind the handle \<open>vpudec\<close> (the library is not
  among the sources). Of its state only the drain-mode flag of the session is kept; it is
  off in a freshly opened engine, \<open>imx_vpu_dec_enable_drain_mode\<close> stores its argument and
  \<open>imx_vpu_dec_is_drain_mode_enabled\<close> reads it back. Everything else the engine does
  reaches the example through the answers below.
\<close>

record ImxVpuDecoder =
  drain_mode :: bool

definition opened_decoder :: ImxVpuDecoder where
  "opened_decoder = \<lparr>drain_mode = False\<rparr>"

definition imx_vpu_dec_enable_drain_mode :: "ImxVpuDecoder \<Rightarrow> int \<Rightarrow> ImxVpuDecoder" where
  "imx_vpu_dec_enable_drain_mode dec enabled = dec\<lparr>drain_mode := (enabled \<noteq> 0)\<rparr>"

definition imx_vpu_dec_is_drain_mode_enabled :: "ImxVpuDecoder \<Rightarrow> bool" where
  "imx_vpu_dec_is_drain_mode_enabled dec = drain_mode dec"

record AppData =
  infn :: "string option"
  outfn :: "string option"
  fin :: ptr
  fout :: ptr
  h264_ctx :: h264_context
  vpudec :: ptr
  bitstream_buffer :: ptr
  bitstream_buffer_size :: nat
  bitstream_buffer_alignment :: uint
  initial_info :: ImxVpuDecInitialInfo
  framebuffers :: "ImxVpuFramebuffer list option"
  fb_dmabuffers :: "ptr list option"
  num_framebuffers :: uint
  calculated_sizes :: ImxVpuDecFramebufferSizes
  frame_id_counter :: uint

text \<open>\<open>memset(&app_data, 0, sizeof(AppData))\<close> in \<open>main\<close>.\<close>

definition zero_sizes :: ImxVpuDecFramebufferSizes where
  "zero_sizes = \<lparr>aligned_frame_width = 0, aligned_frame_height = 0, y_stride = 0,
     cbcr_stride = 0, y_size = 0, cbcr_size = 0, mvcol_size = 0, total_size = 0\<rparr>"

definition zero_AppData :: AppData where
  "zero_AppData = \<lparr>infn = None, outfn = None, fin = None, fout = None,
     h264_ctx = \<lparr>in_buffer = 0, au_start_offset = 0, au_end_offset = 0\<rparr>,
     vpudec = None, bitstream_buffer = None, bitstream_buffer_size = 0,
     bitstream_buffer_alignment = 0,
     initial_info = \<lparr>frame_width = 0, frame_height = 0, frame_rate_numerator = 0,
       frame_rate_denominator = 0, min_num_required_framebuffers = 0, interlacing = 0,
       width_height_ratio = 0, framebuffer_alignment = 0\<rparr>,
     framebuffers = None, fb_dmabuffers = None, num_framebuffers = 0,
     calculated_sizes = zero_sizes, frame_id_counter = 0\<rparr>"

section \<open>Calls to the collaborators\<close>

text \<open>
  The example talks to the file system, the bitstream reader, the allocator and the
  engine. The calls it makes are recorded, in order, with their arguments and with what
  came back. Left out are the logging to \<open>stderr\<close> and the two getters of \<open>init\<close>
  (\<open>imx_vpu_dec_get_bitstream_buffer_info\<close>, \<open>imx_vpu_dec_get_default_allocator\<close>),
  whose results appear as arguments of the allocation. Of what
  \<open>h264_ctx_read_access_unit\<close> does to the context, the model keeps the two offsets the
  example reads afterwards.
\<close>

datatype event =
    Call_fopen "string option" ptr
  | Call_fclose ptr
  | Call_h264_ctx_init
  | Call_h264_ctx_read_access_unit int nat nat
  | Call_h264_ctx_cleanup
  | Call_imx_vpu_dec_load
  | Call_imx_vpu_dec_unload
  | Call_imx_vpu_dma_buffer_allocate nat uint ptr
  | Call_imx_vpu_dma_buffer_deallocate ptr
  | Call_imx_vpu_dec_open ImxVpuDecReturnCodes ptr
  | Call_imx_vpu_dec_close ptr
  | Call_imx_vpu_dec_is_drain_mode_enabled bool
  | Call_imx_vpu_dec_enable_drain_mode int
  | Call_imx_vpu_dec_decode ImxVpuEncodedFrame ImxVpuDecReturnCodes uint
  | Call_imx_vpu_dec_get_initial_info ImxVpuDecReturnCodes
  | Call_imx_vpu_dec_calc_framebuffer_sizes
  | Call_malloc_framebuffers uint
  | Call_malloc_fb_dmabuffers uint
  | Call_imx_vpu_dec_fill_framebuffer_params ptr voidp
  | Call_imx_vpu_dec_register_framebuffers "ImxVpuFramebuffer list" uint ImxVpuDecReturnCodes
  | Call_imx_vpu_dec_get_decoded_picture ImxVpuDecReturnCodes ImxVpuPicture
  | Call_imx_vpu_dma_buffer_map ptr
  | Call_fwrite uint
  | Call_imx_vpu_dma_buffer_unmap ptr
  | Call_imx_vpu_dec_mark_framebuffer_as_displayed ptr ImxVpuDecReturnCodes
  | Call_imx_vpu_dec_get_dropped_frame_context voidp
  | Call_free_framebuffers "ImxVpuFramebuffer list option"
  | Call_free_fb_dmabuffers "ptr list option"

text \<open>
  What the collaborators answer during \<open>init\<close>. \<open>getopt_results\<close> lists what the
  successive calls \<open>getopt(argc, argv, "i:o:")\<close> return before \<open>-1\<close>: the option
  character and \<open>optarg\<close>.
\<close>

record init_answers =
  getopt_results :: "(char \<times> string) list"
  fopen_fin :: ptr
  fopen_fout :: ptr
  h264_in_buffer :: nat
  bitstream_buffer_info_size :: nat
  bitstream_buffer_info_alignment :: uint
  bitstream_buffer_allocation :: ptr
  dec_open_ret :: ImxVpuDecReturnCodes
  dec_open_handle :: ptr

text \<open>
  What the collaborators answer during one call of \<open>decode_frame\<close>. The calls the step
  does not make leave their answers unread. \<open>dma_allocation i\<close> is what the allocator
  returns for the \<open>i\<close>-th framebuffer of a pool (\<open>None\<close>: the allocation failed).
\<close>

record step_answers =
  read_access_unit_ret :: int
  read_au_start_offset :: nat
  read_au_end_offset :: nat
  decode_ret :: ImxVpuDecReturnCodes
  decode_output_code :: uint
  get_initial_info_ret :: ImxVpuDecReturnCodes
  get_initial_info :: ImxVpuDecInitialInfo
  calc_framebuffer_sizes :: ImxVpuDecFramebufferSizes
  dma_allocation :: "nat \<Rightarrow> ptr"
  register_framebuffers_ret :: ImxVpuDecReturnCodes
  get_decoded_picture_ret :: ImxVpuDecReturnCodes
  get_decoded_picture :: ImxVpuPicture
  mark_displayed_ret :: ImxVpuDecReturnCodes
  dropped_frame_context :: voidp

section \<open>parse_args and init\<close>

fun parse_args :: "AppData \<Rightarrow> (char \<times> string) list \<Rightarrow> AppData \<times> int" where
  "parse_args app [] =
     (if infn app = None then (app, 0)
      else if outfn app = None then (app, 0)
      else (app, 1))"
| "parse_args app ((opt, optarg) # rest) =
     (if opt = CHR ''i'' then parse_args (app\<lparr>infn := Some optarg\<rparr>) rest
      else if opt = CHR ''o'' then parse_args (app\<lparr>outfn := Some optarg\<rparr>) rest
      else (app, 0))"

definition init :: "AppData \<Rightarrow> init_answers \<Rightarrow> AppData \<times> Retval \<times> event list" where
  "init app0 a =
     (case parse_args app0 (getopt_results a) of (app1, parsed) \<Rightarrow>
      if parsed = 0 then (app1, RETVAL_ERROR, [])
      else
        let app2 = app1\<lparr>fin := fopen_fin a\<rparr> in
        if fin app2 = None then (app2, RETVAL_ERROR, [Call_fopen (infn app1) (fopen_fin a)])
        else
          let app3 = app2\<lparr>fout := fopen_fout a\<rparr> in
          if fout app3 = None
          then (app3, RETVAL_ERROR,
                [Call_fopen (infn app1) (fopen_fin a), Call_fopen (outfn app1) (fopen_fout a),
                 Call_fclose (fin app3)])
          else
            let app4 = app3\<lparr>frame_id_counter := 100\<rparr>;
                app5 = app4\<lparr>h264_ctx := \<lparr>in_buffer = h264_in_buffer a, au_start_offset = 0,
                                          au_end_offset = 0\<rparr>\<rparr>;
                app6 = app5\<lparr>bitstream_buffer_size := bitstream_buffer_info_size a,
                            bitstream_buffer_alignment := bitstream_buffer_info_alignment a\<rparr>;
                app7 = app6\<lparr>bitstream_buffer := bitstream_buffer_allocation a\<rparr>;
                app8 = app7\<lparr>vpudec := dec_open_handle a\<rparr>
            in (app8, RETVAL_OK,
                [Call_fopen (infn app1) (fopen_fin a), Call_fopen (outfn app1) (fopen_fout a),
                 Call_h264_ctx_init,
                 Call_imx_vpu_dec_load,
                 Call_imx_vpu_dma_buffer_allocate (bitstream_buffer_size app6)
                   (bitstream_buffer_alignment app6) (bitstream_buffer_allocation a),
                 Call_imx_vpu_dec_open (dec_open_ret a) (dec_open_handle a)]))"

section \<open>shutdown\<close>

text \<open>
  The loop of \<open>shutdown\<close> reads \<open>fb_dmabuffers[i]\<close> for every \<open>i\<close> below
  \<open>num_framebuffers\<close>. With a count of 0 nothing is read; otherwise the array must be
  there and hold that many entries, and the model has no result (\<open>None\<close>) when it does
  not. \<open>free(NULL)\<close> is a call like any other and is recorded with its argument.
\<close>

definition pool_reads :: "AppData \<Rightarrow> ptr list option" where
  "pool_reads app =
     (if num_framebuffers app = 0 then Some []
      else (case fb_dmabuffers app of
              None \<Rightarrow> None
            | Some bufs \<Rightarrow>
                if unat (num_framebuffers app) \<le> length bufs
                then Some (take (unat (num_framebuffers app)) bufs)
                else None))"

definition shutdown :: "AppData \<Rightarrow> (AppData \<times> Retval \<times> event list) option" where
  "shutdown app =
     (case pool_reads app of
        None \<Rightarrow> None
      | Some bufs \<Rightarrow>
          Some (app, RETVAL_OK,
            [Call_imx_vpu_dec_close (vpudec app),
             Call_free_framebuffers (framebuffers app)]
            @ map Call_imx_vpu_dma_buffer_deallocate bufs
            @ [Call_free_fb_dmabuffers (fb_dmabuffers app),
               Call_imx_vpu_dma_buffer_deallocate (bitstream_buffer app),
               Call_imx_vpu_dec_unload,
               Call_h264_ctx_cleanup]
            @ (if fout app \<noteq> None then [Call_fclose (fout app)] else [])
            @ (if fin app \<noteq> None then [Call_fclose (fin app)] else [])))"

section \<open>decode_frame\<close>

text \<open>The unit submitted in drain mode (lines 189 to 193).\<close>

definition drain_frame :: ImxVpuEncodedFrame where
  "drain_frame = \<lparr>virtual_address = None, data_size = 0, codec_data = None,
     codec_data_size = 0, frame_context = 0\<rparr>"

text \<open>The unit submitted in regular mode (lines 206 to 218).\<close>

definition regular_frame :: "AppData \<Rightarrow> ImxVpuEncodedFrame" where
  "regular_frame app =
     \<lparr>virtual_address = Some (in_buffer (h264_ctx app) + au_start_offset (h264_ctx app)),
      data_size = of_nat (au_end_offset (h264_ctx app) - au_start_offset (h264_ctx app)),
      codec_data = None, codec_data_size = 0,
      frame_context = frame_id_counter app\<rparr>"

text \<open>
  Modelled from the spec: \<open>imx_vpu_dec_fill_framebuffer_params\<close> (library code, not among
  the sources) fills a pool slot, pairing the allocation with the computed geometry and
  the tag the caller assigns.
\<close>

definition imx_vpu_dec_fill_framebuffer_params ::
  "ImxVpuDecFramebufferSizes \<Rightarrow> ptr \<Rightarrow> voidp \<Rightarrow> ImxVpuFramebuffer" where
  "imx_vpu_dec_fill_framebuffer_params sizes buf ctx =
     \<lparr>dma_buffer = buf, fb_sizes = sizes, fb_context = ctx\<rparr>"

text \<open>
  The block run when the initial-info flag is set (lines 232 to 280). The two \<open>malloc\<close>
  calls are taken to succeed: the source writes through their results without a test.
  No result of a call is tested anywhere in the block.
\<close>

definition register_pool :: "AppData \<Rightarrow> step_answers \<Rightarrow> AppData \<times> event list" where
  "register_pool app a =
     (let app1 = app\<lparr>initial_info := get_initial_info a\<rparr>;
          app2 = app1\<lparr>num_framebuffers := min_num_required_framebuffers (initial_info app1)\<rparr>;
          app3 = app2\<lparr>calculated_sizes := calc_framebuffer_sizes a\<rparr>;
          n = unat (num_framebuffers app3);
          bufs = map (dma_allocation a) [0..<n];
          fbs = map (\<lambda>i. imx_vpu_dec_fill_framebuffer_params (calculated_sizes app3)
                          (dma_allocation a i) (0x2000 + of_nat i)) [0..<n];
          app4 = app3\<lparr>framebuffers := Some fbs, fb_dmabuffers := Some bufs\<rparr>
      in (app4,
          [Call_imx_vpu_dec_get_initial_info (get_initial_info_ret a),
           Call_imx_vpu_dec_calc_framebuffer_sizes,
           Call_malloc_framebuffers (num_framebuffers app3),
           Call_malloc_fb_dmabuffers (num_framebuffers app3)]
          @ concat (map (\<lambda>i.
              [Call_imx_vpu_dma_buffer_allocate (unat (total_size (calculated_sizes app3)))
                 (framebuffer_alignment (initial_info app3)) (dma_allocation a i),
               Call_imx_vpu_dec_fill_framebuffer_params (dma_allocation a i) (0x2000 + of_nat i)])
              [0..<n])
          @ [Call_imx_vpu_dec_register_framebuffers fbs (num_framebuffers app3)
               (register_framebuffers_ret a)]))"

text \<open>The block run when the decoded-picture flag is set (lines 288 to 311).\<close>

definition output_picture :: "AppData \<Rightarrow> step_answers \<Rightarrow> event list" where
  "output_picture app a =
     (let num_out_byte = y_size (calculated_sizes app) + cbcr_size (calculated_sizes app) * 2;
          decoded_picture = get_decoded_picture a
      in [Call_imx_vpu_dec_get_decoded_picture (get_decoded_picture_ret a) decoded_picture,
          Call_imx_vpu_dma_buffer_map (framebuffer_dma_buffer decoded_picture),
          Call_fwrite num_out_byte,
          Call_imx_vpu_dma_buffer_unmap (framebuffer_dma_buffer decoded_picture),
          Call_imx_vpu_dec_mark_framebuffer_as_displayed (framebuffer decoded_picture)
            (mark_displayed_ret a)])"

text \<open>
  Lines 230 to 329: what \<open>decode_frame\<close> does with the output code once
  \<open>imx_vpu_dec_decode\<close> has returned. \<open>ok\<close> is the local variable of that name.
\<close>

definition handle_output_code ::
  "output_codes \<Rightarrow> AppData \<Rightarrow> int \<Rightarrow> step_answers \<Rightarrow> AppData \<times> Retval \<times> event list" where
  "handle_output_code K app ok a =
     (let output_code = decode_output_code a;
          (app1, ev1) =
            (if output_code AND IMX_VPU_DEC_OUTPUT_CODE_INITIAL_INFO_AVAILABLE K \<noteq> 0
             then register_pool app a else (app, []));
          ev2 =
            (if output_code AND IMX_VPU_DEC_OUTPUT_CODE_DECODED_PICTURE_AVAILABLE K \<noteq> 0
             then output_picture app1 a
             else if output_code AND IMX_VPU_DEC_OUTPUT_CODE_DROPPED K \<noteq> 0
             then [Call_imx_vpu_dec_get_dropped_frame_context (dropped_frame_context a)]
             else []);
          ok1 = (if output_code AND IMX_VPU_DEC_OUTPUT_CODE_EOS K \<noteq> 0 then 0 else ok);
          app2 = app1\<lparr>frame_id_counter := frame_id_counter app1 + 1\<rparr>
      in (app2, if ok1 \<noteq> 0 then RETVAL_OK else RETVAL_EOS, ev1 @ ev2))"

definition decode_frame ::
  "output_codes \<Rightarrow> ImxVpuDecoder \<Rightarrow> AppData \<Rightarrow> step_answers \<Rightarrow> AppData \<times> Retval \<times> event list" where
  "decode_frame K dec app a =
     (if imx_vpu_dec_is_drain_mode_enabled dec
      then
        (case handle_output_code K app 1 a of (app', ret, evs) \<Rightarrow>
           (app', ret,
            [Call_imx_vpu_dec_is_drain_mode_enabled True,
             Call_imx_vpu_dec_decode drain_frame (decode_ret a) (decode_output_code a)] @ evs))
      else
        let ok = read_access_unit_ret a;
            app1 = app\<lparr>h264_ctx := (h264_ctx app)\<lparr>au_start_offset := read_au_start_offset a,
                                                   au_end_offset := read_au_end_offset a\<rparr>\<rparr>;
            read = Call_h264_ctx_read_access_unit ok (au_start_offset (h264_ctx app1))
                     (au_end_offset (h264_ctx app1))
        in if au_end_offset (h264_ctx app1) \<le> au_start_offset (h264_ctx app1)
           then (app1, RETVAL_EOS, [Call_imx_vpu_dec_is_drain_mode_enabled False, read])
           else
             (case handle_output_code K app1 ok a of (app', ret, evs) \<Rightarrow>
                (app', ret,
                 [Call_imx_vpu_dec_is_drain_mode_enabled False, read,
                  Call_imx_vpu_dec_decode (regular_frame app1) (decode_ret a)
                    (decode_output_code a)] @ evs)))"

section \<open>main\<close>

text \<open>
  Each \<open>for (;;)\<close> of \<open>main\<close> calls \<open>decode_frame\<close> until it returns \<open>RETVAL_EOS\<close> or
  \<open>RETVAL_ERROR\<close>. The collaborators' answers come as a list, one entry per call of
  \<open>decode_frame\<close>. A loop that is still running when the list ends returns \<open>None\<close> for
  the value that would have ended it, together with the state and the calls made so far:
  the model of a run that has not ended is the run up to that point, and a theorem that a
  run ends says for which answers.
\<close>

fun decode_loop ::
  "output_codes \<Rightarrow> ImxVpuDecoder \<Rightarrow> AppData \<Rightarrow> step_answers list \<Rightarrow>
     Retval option \<times> AppData \<times> event list \<times> step_answers list" where
  "decode_loop K dec app [] = (None, app, [], [])"
| "decode_loop K dec app (a # rest) =
     (case decode_frame K dec app a of (app', ret, evs) \<Rightarrow>
        if ret = RETVAL_EOS then (Some RETVAL_EOS, app', evs, rest)
        else if ret = RETVAL_ERROR then (Some RETVAL_ERROR, app', evs, rest)
        else (case decode_loop K dec app' rest of
                (ret', app'', evs', rest') \<Rightarrow> (ret', app'', evs @ evs', rest')))"

text \<open>
  How a run stands when the answers end: \<open>main\<close> returned an exit code, or a loop was
  still running, or \<open>shutdown\<close> read outside the pool array.
\<close>

datatype outcome = Exit int | Answers_exhausted | Invalid_read

text \<open>The places where \<open>main\<close> calls \<open>shutdown\<close> and returns.\<close>

definition shutdown_and_return ::
  "(Retval \<Rightarrow> int) \<Rightarrow> AppData \<Rightarrow> event list \<Rightarrow> outcome \<times> AppData \<times> event list" where
  "shutdown_and_return code app evs =
     (case shutdown app of
        None \<Rightarrow> (Invalid_read, app, evs)
      | Some (app', ret, evs') \<Rightarrow> (Exit (code ret), app', evs @ evs'))"

definition main ::
  "output_codes \<Rightarrow> init_answers \<Rightarrow> step_answers list \<Rightarrow> outcome \<times> AppData \<times> event list" where
  "main K ia answers =
     (case init zero_AppData ia of (app1, ret0, ev0) \<Rightarrow>
      if ret0 = RETVAL_ERROR then (Exit 1, app1, ev0)
      else
        (case decode_loop K opened_decoder app1 answers of (ret1, app2, ev1, rest) \<Rightarrow>
           if ret1 = None then (Answers_exhausted, app2, ev0 @ ev1)
           else if ret1 = Some RETVAL_ERROR then shutdown_and_return (\<lambda>_. 1) app2 (ev0 @ ev1)
           else
             let dec = imx_vpu_dec_enable_drain_mode opened_decoder 1;
                 ev_drain = ev0 @ ev1 @ [Call_imx_vpu_dec_enable_drain_mode 1] in
             (case decode_loop K dec app2 rest of (ret2, app3, ev2, rest') \<Rightarrow>
                if ret2 = None then (Answers_exhausted, app3, ev_drain @ ev2)
                else if ret2 = Some RETVAL_ERROR
                then shutdown_and_return (\<lambda>_. 1) app3 (ev_drain @ ev2)
                else shutdown_and_return Retval_value app3 (ev_drain @ ev2))))"

section \<open>Reading a step and a run\<close>

definition step_app :: "output_codes \<Rightarrow> ImxVpuDecoder \<Rightarrow> AppData \<Rightarrow> step_answers \<Rightarrow> AppData" where
  "step_app K dec app a = fst (decode_frame K dec app a)"

definition step_ret :: "output_codes \<Rightarrow> ImxVpuDecoder \<Rightarrow> AppData \<Rightarrow> step_answers \<Rightarrow> Retval" where
  "step_ret K dec app a = fst (snd (decode_frame K dec app a))"

definition step_events ::
  "output_codes \<Rightarrow> ImxVpuDecoder \<Rightarrow> AppData \<Rightarrow> step_answers \<Rightarrow> event list" where
  "step_events K dec app a = snd (snd (decode_frame K dec app a))"

text \<open>
  A step submits a unit to the engine unless it is a regular-mode step whose read found
  no access unit (line 203).
\<close>

definition submits :: "ImxVpuDecoder \<Rightarrow> step_answers \<Rightarrow> bool" where
  "submits dec a = (drain_mode dec \<or> read_au_start_offset a < read_au_end_offset a)"

definition initial_info_flag :: "output_codes \<Rightarrow> step_answers \<Rightarrow> bool" where
  "initial_info_flag K a =
     (decode_output_code a AND IMX_VPU_DEC_OUTPUT_CODE_INITIAL_INFO_AVAILABLE K \<noteq> 0)"

definition decoded_picture_flag :: "output_codes \<Rightarrow> step_answers \<Rightarrow> bool" where
  "decoded_picture_flag K a =
     (decode_output_code a AND IMX_VPU_DEC_OUTPUT_CODE_DECODED_PICTURE_AVAILABLE K \<noteq> 0)"

definition dropped_flag :: "output_codes \<Rightarrow> step_answers \<Rightarrow> bool" where
  "dropped_flag K a = (decode_output_code a AND IMX_VPU_DEC_OUTPUT_CODE_DROPPED K \<noteq> 0)"

definition eos_flag :: "output_codes \<Rightarrow> step_answers \<Rightarrow> bool" where
  "eos_flag K a = (decode_output_code a AND IMX_VPU_DEC_OUTPUT_CODE_EOS K \<noteq> 0)"

text \<open>The state after the read of a regular-mode step (line 201).\<close>

definition after_read :: "AppData \<Rightarrow> step_answers \<Rightarrow> AppData" where
  "after_read app a =
     app\<lparr>h264_ctx := (h264_ctx app)\<lparr>au_start_offset := read_au_start_offset a,
                                     au_end_offset := read_au_end_offset a\<rparr>\<rparr>"

definition pool_app :: "output_codes \<Rightarrow> AppData \<Rightarrow> step_answers \<Rightarrow> AppData" where
  "pool_app K app a = (if initial_info_flag K a then fst (register_pool app a) else app)"

definition pool_events :: "output_codes \<Rightarrow> AppData \<Rightarrow> step_answers \<Rightarrow> event list" where
  "pool_events K app a = (if initial_info_flag K a then snd (register_pool app a) else [])"

definition picture_events :: "output_codes \<Rightarrow> AppData \<Rightarrow> step_answers \<Rightarrow> event list" where
  "picture_events K app a =
     (if decoded_picture_flag K a then output_picture app a
      else if dropped_flag K a
      then [Call_imx_vpu_dec_get_dropped_frame_context (dropped_frame_context a)]
      else [])"

text \<open>Kinds of calls in a trace.\<close>

definition is_decode :: "event \<Rightarrow> bool" where
  "is_decode e = (case e of Call_imx_vpu_dec_decode f r oc \<Rightarrow> True | _ \<Rightarrow> False)"

definition is_get_dropped_frame_context :: "event \<Rightarrow> bool" where
  "is_get_dropped_frame_context e =
     (case e of Call_imx_vpu_dec_get_dropped_frame_context c \<Rightarrow> True | _ \<Rightarrow> False)"

definition is_allocate :: "event \<Rightarrow> bool" where
  "is_allocate e = (case e of Call_imx_vpu_dma_buffer_allocate n al p \<Rightarrow> True | _ \<Rightarrow> False)"

definition is_deallocate :: "event \<Rightarrow> bool" where
  "is_deallocate e = (case e of Call_imx_vpu_dma_buffer_deallocate p \<Rightarrow> True | _ \<Rightarrow> False)"

definition is_register :: "event \<Rightarrow> bool" where
  "is_register e =
     (case e of Call_imx_vpu_dec_register_framebuffers fbs n r \<Rightarrow> True | _ \<Rightarrow> False)"

definition is_get_decoded_picture :: "event \<Rightarrow> bool" where
  "is_get_decoded_picture e =
     (case e of Call_imx_vpu_dec_get_decoded_picture r p \<Rightarrow> True | _ \<Rightarrow> False)"

definition is_mark_displayed :: "event \<Rightarrow> bool" where
  "is_mark_displayed e =
     (case e of Call_imx_vpu_dec_mark_framebuffer_as_displayed p r \<Rightarrow> True | _ \<Rightarrow> False)"

definition is_enable_drain_mode :: "event \<Rightarrow> bool" where
  "is_enable_drain_mode e = (case e of Call_imx_vpu_dec_enable_drain_mode n \<Rightarrow> True | _ \<Rightarrow> False)"

definition is_read_access_unit :: "event \<Rightarrow> bool" where
  "is_read_access_unit e =
     (case e of Call_h264_ctx_read_access_unit ok s t \<Rightarrow> True | _ \<Rightarrow> False)"

text \<open>The calls that release something: \<open>free\<close> and the allocator's deallocate.\<close>

definition is_release :: "event \<Rightarrow> bool" where
  "is_release e =
     (case e of
        Call_imx_vpu_dma_buffer_deallocate p \<Rightarrow> True
      | Call_free_framebuffers fbs \<Rightarrow> True
      | Call_free_fb_dmabuffers bufs \<Rightarrow> True
      | _ \<Rightarrow> False)"

text \<open>The calls that build a pool: the two \<open>malloc\<close>s, and registration.\<close>

definition is_pool_build :: "event \<Rightarrow> bool" where
  "is_pool_build e =
     (case e of
        Call_malloc_framebuffers n \<Rightarrow> True
      | Call_malloc_fb_dmabuffers n \<Rightarrow> True
      | Call_imx_vpu_dec_register_framebuffers fbs n r \<Rightarrow> True
      | _ \<Rightarrow> False)"

text \<open>The calls \<open>decode_frame\<close> can make; \<open>init\<close>, \<open>main\<close> and \<open>shutdown\<close> make the others.\<close>

definition is_step_call :: "event \<Rightarrow> bool" where
  "is_step_call e =
     (case e of
        Call_fopen n p \<Rightarrow> False
      | Call_fclose p \<Rightarrow> False
      | Call_h264_ctx_init \<Rightarrow> False
      | Call_h264_ctx_cleanup \<Rightarrow> False
      | Call_imx_vpu_dec_load \<Rightarrow> False
      | Call_imx_vpu_dec_unload \<Rightarrow> False
      | Call_imx_vpu_dma_buffer_deallocate p \<Rightarrow> False
      | Call_imx_vpu_dec_open r p \<Rightarrow> False
      | Call_imx_vpu_dec_close p \<Rightarrow> False
      | Call_imx_vpu_dec_enable_drain_mode n \<Rightarrow> False
      | Call_free_framebuffers fbs \<Rightarrow> False
      | Call_free_fb_dmabuffers bufs \<Rightarrow> False
      | _ \<Rightarrow> True)"

text \<open>The buffers handed out by, and given back to, the allocator, in the order of the calls.\<close>

definition allocated :: "event list \<Rightarrow> ptr list" where
  "allocated tr =
     concat (map (\<lambda>e. case e of Call_imx_vpu_dma_buffer_allocate n al p \<Rightarrow> [p] | _ \<Rightarrow> []) tr)"

definition deallocated :: "event list \<Rightarrow> ptr list" where
  "deallocated tr =
     concat (map (\<lambda>e. case e of Call_imx_vpu_dma_buffer_deallocate p \<Rightarrow> [p] | _ \<Rightarrow> []) tr)"

text \<open>
  A decode call whose output code has the decoded-picture flag is one
  \<open>DECODED_PICTURE_AVAILABLE\<close> event the example observes.
\<close>

definition picture_available :: "output_codes \<Rightarrow> event \<Rightarrow> bool" where
  "picture_available K e =
     (case e of
        Call_imx_vpu_dec_decode f r oc \<Rightarrow>
          oc AND IMX_VPU_DEC_OUTPUT_CODE_DECODED_PICTURE_AVAILABLE K \<noteq> 0
      | _ \<Rightarrow> False)"

definition marks :: "event list \<Rightarrow> nat" where
  "marks tr = length (filter is_mark_displayed tr)"

definition pictures_available :: "output_codes \<Rightarrow> event list \<Rightarrow> nat" where
  "pictures_available K tr = length (filter (picture_available K) tr)"

text \<open>
  The slots the consumer owns along a trace: a fetched picture's slot becomes the
  consumer's, marking it displayed gives it back. The result is \<open>None\<close> as soon as a
  slot is marked displayed that the consumer does not own at that moment.
\<close>

fun owned_run :: "ptr list \<Rightarrow> event list \<Rightarrow> ptr list option" where
  "owned_run owned [] = Some owned"
| "owned_run owned (e # es) =
     (case e of
        Call_imx_vpu_dec_get_decoded_picture r pic \<Rightarrow> owned_run (framebuffer pic # owned) es
      | Call_imx_vpu_dec_mark_framebuffer_as_displayed fb r \<Rightarrow>
          if fb \<in> set owned then owned_run (remove1 fb owned) es else None
      | _ \<Rightarrow> owned_run owned es)"

text \<open>
  The units submitted along a trace, each with the answer of the drain-mode query that
  preceded it (\<open>True\<close>: submitted while drain mode was active).
\<close>

fun submissions :: "bool \<Rightarrow> event list \<Rightarrow> (bool \<times> ImxVpuEncodedFrame) list" where
  "submissions d [] = []"
| "submissions d (e # es) =
     (case e of
        Call_imx_vpu_dec_is_drain_mode_enabled b \<Rightarrow> submissions b es
      | Call_imx_vpu_dec_decode f r oc \<Rightarrow> (d, f) # submissions d es
      | _ \<Rightarrow> submissions d es)"

definition regular_contexts :: "event list \<Rightarrow> voidp list" where
  "regular_contexts tr = map (\<lambda>s. frame_context (snd s)) (filter (\<lambda>s. \<not> fst s) (submissions False tr))"

definition drain_frames :: "event list \<Rightarrow> ImxVpuEncodedFrame list" where
  "drain_frames tr = map snd (filter fst (submissions False tr))"

text \<open>
  What can end the first loop of \<open>main\<close>: a read that found no access unit or returned
  0 (the source is exhausted), or a decode call whose output code has the end-of-stream
  flag.
\<close>

definition source_exhausted :: "event \<Rightarrow> bool" where
  "source_exhausted e =
     (case e of Call_h264_ctx_read_access_unit ok s t \<Rightarrow> t \<le> s \<or> ok = 0 | _ \<Rightarrow> False)"

definition engine_eos :: "output_codes \<Rightarrow> event \<Rightarrow> bool" where
  "engine_eos K e =
     (case e of
        Call_imx_vpu_dec_decode f r oc \<Rightarrow> oc AND IMX_VPU_DEC_OUTPUT_CODE_EOS K \<noteq> 0
      | _ \<Rightarrow> False)"

definition drain_query :: "bool \<Rightarrow> event \<Rightarrow> bool" where
  "drain_query b e = (case e of Call_imx_vpu_dec_is_drain_mode_enabled c \<Rightarrow> c = b | _ \<Rightarrow> False)"

definition before_drain :: "event list \<Rightarrow> event list" where
  "before_drain tr = takeWhile (\<lambda>e. \<not> is_enable_drain_mode e) tr"

definition from_drain :: "event list \<Rightarrow> event list" where
  "from_drain tr = dropWhile (\<lambda>e. \<not> is_enable_drain_mode e) tr"

text \<open>The parts of a run's result.\<close>

definition exit_code :: "outcome \<times> AppData \<times> event list \<Rightarrow> int option" where
  "exit_code r = (case fst r of Exit code \<Rightarrow> Some code | _ \<Rightarrow> None)"

definition final_app :: "outcome \<times> AppData \<times> event list \<Rightarrow> AppData" where
  "final_app r = fst (snd r)"

definition trace :: "outcome \<times> AppData \<times> event list \<Rightarrow> event list" where
  "trace r = snd (snd r)"

text \<open>\<open>init\<close> fails exactly on the three tests it makes (lines 112, 117 and 124).\<close>

definition init_fails :: "init_answers \<Rightarrow> bool" where
  "init_fails ia =
     (snd (parse_args zero_AppData (getopt_results ia)) = 0
      \<or> fopen_fin ia = None \<or> fopen_fout ia = None)"

text \<open>The calls of the pool-building block, and the decoder after \<open>main\<close> enabled drain mode.\<close>

definition is_pool_call :: "event \<Rightarrow> bool" where
  "is_pool_call e =
     (case e of
        Call_imx_vpu_dec_get_initial_info r \<Rightarrow> True
      | Call_imx_vpu_dec_calc_framebuffer_sizes \<Rightarrow> True
      | Call_malloc_framebuffers n \<Rightarrow> True
      | Call_malloc_fb_dmabuffers n \<Rightarrow> True
      | Call_imx_vpu_dma_buffer_allocate n al p \<Rightarrow> True
      | Call_imx_vpu_dec_fill_framebuffer_params p c \<Rightarrow> True
      | Call_imx_vpu_dec_register_framebuffers fbs n r \<Rightarrow> True
      | _ \<Rightarrow> False)"

definition draining_decoder :: ImxVpuDecoder where
  "draining_decoder = imx_vpu_dec_enable_drain_mode opened_decoder 1"

text \<open>
  The pool fields as \<open>shutdown\<close> needs them: a count of 0, or an array of exactly that
  many buffers.
\<close>

definition pool_consistent :: "AppData \<Rightarrow> bool" where
  "pool_consistent app =
     (num_framebuffers app = 0 \<or>
      map_option length (fb_dmabuffers app) = Some (unat (num_framebuffers app)))"

text \<open>The answer of the last drain-mode query of a trace (\<open>d\<close> when there is none).\<close>

fun last_query :: "bool \<Rightarrow> event list \<Rightarrow> bool" where
  "last_query d [] = d"
| "last_query d (e # es) =
     (case e of
        Call_imx_vpu_dec_is_drain_mode_enabled b \<Rightarrow> last_query b es
      | _ \<Rightarrow> last_query d es)"

text \<open>The calls \<open>init\<close> can make, and the calls \<open>shutdown\<close> can make.\<close>

definition is_init_call :: "event \<Rightarrow> bool" where
  "is_init_call e =
     (case e of
        Call_fopen n p \<Rightarrow> True
      | Call_fclose p \<Rightarrow> True
      | Call_h264_ctx_init \<Rightarrow> True
      | Call_imx_vpu_dec_load \<Rightarrow> True
      | Call_imx_vpu_dma_buffer_allocate n al p \<Rightarrow> True
      | Call_imx_vpu_dec_open r p \<Rightarrow> True
      | _ \<Rightarrow> False)"

definition is_shutdown_call :: "event \<Rightarrow> bool" where
  "is_shutdown_call e =
     (case e of
        Call_imx_vpu_dec_close p \<Rightarrow> True
      | Call_free_framebuffers fbs \<Rightarrow> True
      | Call_imx_vpu_dma_buffer_deallocate p \<Rightarrow> True
      | Call_free_fb_dmabuffers bufs \<Rightarrow> True
      | Call_imx_vpu_dec_unload \<Rightarrow> True
      | Call_h264_ctx_cleanup \<Rightarrow> True
      | Call_fclose p \<Rightarrow> True
      | _ \<Rightarrow> False)"

definition is_drain_query :: "event \<Rightarrow> bool" where
  "is_drain_query e =
     (case e of Call_imx_vpu_dec_is_drain_mode_enabled b \<Rightarrow> True | _ \<Rightarrow> False)"

text \<open>What \<open>init\<close> leaves in \<open>AppData\<close> when it succeeds.\<close>

definition opened_app :: "init_answers \<Rightarrow> AppData" where
  "opened_app ia = fst (init zero_AppData ia)"

definition init_events :: "init_answers \<Rightarrow> event list" where
  "init_events ia = snd (snd (init zero_AppData ia))"

text \<open>
  A trace in which, at every moment, no more slots have been marked displayed than
  decoded pictures have been announced, and in which the two numbers agree at the end.
\<close>

definition balanced :: "output_codes \<Rightarrow> event list \<Rightarrow> bool" where
  "balanced K tr =
     (marks tr = pictures_available K tr \<and>
      (\<forall>n. marks (take n tr) \<le> pictures_available K (take n tr)))"

section \<open>Sample inputs\<close>

text \<open>
  One assignment of four distinct bits to the output codes, an \<open>init\<close> that succeeds,
  and a regular step in which the reader delivers a ten-byte unit and the engine sets no
  flag; the samples below vary it.
\<close>

definition sample_codes :: output_codes where
  "sample_codes =
     \<lparr>IMX_VPU_DEC_OUTPUT_CODE_INITIAL_INFO_AVAILABLE = 1,
      IMX_VPU_DEC_OUTPUT_CODE_DECODED_PICTURE_AVAILABLE = 2,
      IMX_VPU_DEC_OUTPUT_CODE_DROPPED = 4,
      IMX_VPU_DEC_OUTPUT_CODE_EOS = 8\<rparr>"

definition sample_init :: init_answers where
  "sample_init =
     \<lparr>getopt_results = [(CHR ''i'', ''in.h264''), (CHR ''o'', ''out.yuv'')],
      fopen_fin = Some 1, fopen_fout = Some 2, h264_in_buffer = 4096,
      bitstream_buffer_info_size = 1024, bitstream_buffer_info_alignment = 8,
      bitstream_buffer_allocation = Some 50,
      dec_open_ret = IMX_VPU_DEC_RETURN_CODE_OK, dec_open_handle = Some 9\<rparr>"

definition sample_info :: "uint \<Rightarrow> ImxVpuDecInitialInfo" where
  "sample_info n =
     \<lparr>frame_width = 16, frame_height = 16, frame_rate_numerator = 25,
      frame_rate_denominator = 1, min_num_required_framebuffers = n, interlacing = 0,
      width_height_ratio = 65536, framebuffer_alignment = 8\<rparr>"

definition sample_sizes :: ImxVpuDecFramebufferSizes where
  "sample_sizes =
     \<lparr>aligned_frame_width = 16, aligned_frame_height = 16, y_stride = 16, cbcr_stride = 8,
      y_size = 256, cbcr_size = 64, mvcol_size = 64, total_size = 448\<rparr>"

definition sample_step :: "uint \<Rightarrow> step_answers" where
  "sample_step oc =
     \<lparr>read_access_unit_ret = 1, read_au_start_offset = 0, read_au_end_offset = 10,
      decode_ret = IMX_VPU_DEC_RETURN_CODE_OK, decode_output_code = oc,
      get_initial_info_ret = IMX_VPU_DEC_RETURN_CODE_OK, get_initial_info = sample_info 2,
      calc_framebuffer_sizes = sample_sizes,
      dma_allocation = (\<lambda>i. Some (200 + i)),
      register_framebuffers_ret = IMX_VPU_DEC_RETURN_CODE_OK,
      get_decoded_picture_ret = IMX_VPU_DEC_RETURN_CODE_OK,
      get_decoded_picture = \<lparr>framebuffer = Some 7, framebuffer_dma_buffer = Some 200,
                               picture_context = 100\<rparr>,
      mark_displayed_ret = IMX_VPU_DEC_RETURN_CODE_OK,
      dropped_frame_context = 100\<rparr>"

text \<open>A step in which the reader finds no further access unit.\<close>

definition sample_no_unit :: step_answers where
  "sample_no_unit = (sample_step 0)\<lparr>read_access_unit_ret := 0, read_au_start_offset := 10\<rparr>"

text \<open>A pool of five in which the third allocation fails.\<close>

definition sample_third_fails :: step_answers where
  "sample_third_fails =
     (sample_step 1)\<lparr>get_initial_info := sample_info 5,
                      dma_allocation := (\<lambda>i. if i = 2 then None else Some (200 + i))\<rparr>"

text \<open>Initial info with a pool of one, its buffer at the given address.\<close>

definition sample_pool_of_one :: "nat \<Rightarrow> step_answers" where
  "sample_pool_of_one b =
     (sample_step 1)\<lparr>get_initial_info := sample_info 1, dma_allocation := (\<lambda>i. Some b)\<rparr>"

text \<open>A regular step in which \<open>imx_vpu_dec_decode\<close> reports a failure and sets no flag.\<close>

definition sample_decode_fails :: step_answers where
  "sample_decode_fails = (sample_step 0)\<lparr>decode_ret := IMX_VPU_DEC_RETURN_CODE_ERROR\<rparr>"

text \<open>An \<open>init\<close> in which \<open>imx_vpu_dec_open\<close> fails, and one in which the scratch buffer is not allocated.\<close>

definition sample_open_fails :: init_answers where
  "sample_open_fails =
     sample_init\<lparr>dec_open_ret := IMX_VPU_DEC_RETURN_CODE_ERROR, dec_open_handle := None\<rparr>"

definition sample_scratch_fails :: init_answers where
  "sample_scratch_fails = sample_init\<lparr>bitstream_buffer_allocation := None\<rparr>"

section \<open>The step, equation by equation\<close>

lemma handle_output_code_ret:
  "fst (snd (handle_output_code K app ok a)) =
     (if eos_flag K a then RETVAL_EOS else if ok \<noteq> 0 then RETVAL_OK else RETVAL_EOS)"
  by (simp add: handle_output_code_def Let_def case_prod_beta eos_flag_def)

lemma handle_output_code_app:
  "fst (handle_output_code K app ok a) =
     (pool_app K app a)\<lparr>frame_id_counter := frame_id_counter (pool_app K app a) + 1\<rparr>"
  by (simp add: handle_output_code_def Let_def case_prod_beta pool_app_def initial_info_flag_def)

lemma handle_output_code_events:
  "snd (snd (handle_output_code K app ok a)) =
     pool_events K app a @ picture_events K (pool_app K app a) a"
  by (simp add: handle_output_code_def Let_def case_prod_beta pool_app_def pool_events_def
      picture_events_def initial_info_flag_def decoded_picture_flag_def dropped_flag_def)

lemma step_ret_eq:
  "step_ret K dec app a =
     (if drain_mode dec then (if eos_flag K a then RETVAL_EOS else RETVAL_OK)
      else if read_au_end_offset a \<le> read_au_start_offset a then RETVAL_EOS
      else if eos_flag K a then RETVAL_EOS
      else if read_access_unit_ret a \<noteq> 0 then RETVAL_OK else RETVAL_EOS)"
  by (simp add: step_ret_def decode_frame_def Let_def case_prod_beta handle_output_code_ret
      imx_vpu_dec_is_drain_mode_enabled_def)

lemma step_app_eq:
  "step_app K dec app a =
     (if drain_mode dec
      then (pool_app K app a)\<lparr>frame_id_counter := frame_id_counter (pool_app K app a) + 1\<rparr>
      else if read_au_end_offset a \<le> read_au_start_offset a then after_read app a
      else (pool_app K (after_read app a) a)
             \<lparr>frame_id_counter := frame_id_counter (pool_app K (after_read app a) a) + 1\<rparr>)"
  by (simp add: step_app_def decode_frame_def Let_def case_prod_beta handle_output_code_app
      imx_vpu_dec_is_drain_mode_enabled_def after_read_def)

lemma step_events_eq:
  "step_events K dec app a =
     (if drain_mode dec
      then [Call_imx_vpu_dec_is_drain_mode_enabled True,
            Call_imx_vpu_dec_decode drain_frame (decode_ret a) (decode_output_code a)]
           @ pool_events K app a @ picture_events K (pool_app K app a) a
      else if read_au_end_offset a \<le> read_au_start_offset a
      then [Call_imx_vpu_dec_is_drain_mode_enabled False,
            Call_h264_ctx_read_access_unit (read_access_unit_ret a) (read_au_start_offset a)
              (read_au_end_offset a)]
      else [Call_imx_vpu_dec_is_drain_mode_enabled False,
            Call_h264_ctx_read_access_unit (read_access_unit_ret a) (read_au_start_offset a)
              (read_au_end_offset a),
            Call_imx_vpu_dec_decode (regular_frame (after_read app a)) (decode_ret a)
              (decode_output_code a)]
           @ pool_events K (after_read app a) a
           @ picture_events K (pool_app K (after_read app a) a) a)"
  by (simp add: step_events_def decode_frame_def Let_def case_prod_beta
      handle_output_code_events imx_vpu_dec_is_drain_mode_enabled_def after_read_def)

lemma step_ret_not_error: "step_ret K dec app a \<noteq> RETVAL_ERROR"
  by (simp add: step_ret_eq)

lemma decode_frame_split:
  "decode_frame K dec app a =
     (step_app K dec app a, step_ret K dec app a, step_events K dec app a)"
  by (simp add: step_app_def step_ret_def step_events_def)

lemma decode_loop_Cons:
  "decode_loop K dec app (a # rest) =
     (if step_ret K dec app a = RETVAL_EOS
      then (Some RETVAL_EOS, step_app K dec app a, step_events K dec app a, rest)
      else (case decode_loop K dec (step_app K dec app a) rest of
              (ret', app'', evs', rest') \<Rightarrow>
                (ret', app'', step_events K dec app a @ evs', rest')))"
  using step_ret_not_error[of K dec app a]
  by (simp add: decode_frame_split)

text \<open>
  Induction over a loop: what holds when the answers end at once, holds for a step that
  returns \<open>RETVAL_EOS\<close>, and passes from the rest of the loop over a step that returns
  \<open>RETVAL_OK\<close>, holds for the loop.
\<close>

lemma decode_loop_induct [consumes 1, case_names empty stop step]:
  assumes run: "decode_loop K dec app as = (r, app', evs, rest)"
    and empty: "\<And>app. P None app app []"
    and stop: "\<And>app a. a \<in> set as \<Longrightarrow> step_ret K dec app a = RETVAL_EOS \<Longrightarrow>
                 P (Some RETVAL_EOS) app (step_app K dec app a) (step_events K dec app a)"
    and step: "\<And>app a r app' evs. a \<in> set as \<Longrightarrow> step_ret K dec app a = RETVAL_OK \<Longrightarrow>
                 P r (step_app K dec app a) app' evs \<Longrightarrow>
                 P r app app' (step_events K dec app a @ evs)"
  shows "P r app app' evs"
proof -
  have "set bs \<subseteq> set as \<Longrightarrow> decode_loop K dec app bs = (r, app', evs, rest) \<Longrightarrow>
          P r app app' evs" for bs
  proof (induction bs arbitrary: app evs)
    case Nil
    then show ?case using empty by simp
  next
    case (Cons a bs)
    from Cons.prems(1) have mem: "a \<in> set as" and sub: "set bs \<subseteq> set as" by simp_all
    show ?case
    proof (cases "step_ret K dec app a = RETVAL_EOS")
      case True
      with Cons.prems(2) stop[OF mem True] show ?thesis
        by (auto simp: decode_loop_Cons simp del: decode_loop.simps)
    next
      case False
      then have ok: "step_ret K dec app a = RETVAL_OK"
        using step_ret_not_error[of K dec app a] by (cases "step_ret K dec app a") simp_all
      from Cons.prems(2) False obtain evs' where
        rec: "decode_loop K dec (step_app K dec app a) bs = (r, app', evs', rest)"
        and evs: "evs = step_events K dec app a @ evs'"
        by (auto simp: decode_loop_Cons simp del: decode_loop.simps split: prod.splits)
      from Cons.IH[OF sub rec] have "P r (step_app K dec app a) app' evs'" .
      with mem ok show ?thesis unfolding evs by (rule step)
    qed
  qed
  from this[of as] run show ?thesis by simp
qed

lemma decode_loop_ret:
  assumes "decode_loop K dec app as = (r, app', evs, rest)"
  shows "r = None \<or> r = Some RETVAL_EOS"
  using assms by (induction rule: decode_loop_induct) simp_all

section \<open>The calls of a step\<close>

lemma pool_call_kinds:
  "is_pool_call e \<Longrightarrow>
     is_step_call e \<and> \<not> is_decode e \<and> \<not> is_get_dropped_frame_context e \<and>
     \<not> is_deallocate e \<and> \<not> is_get_decoded_picture e \<and> \<not> is_mark_displayed e \<and>
     \<not> is_read_access_unit e \<and> \<not> picture_available K e"
  by (cases e)
     (simp_all add: is_pool_call_def is_step_call_def is_decode_def
        is_get_dropped_frame_context_def is_deallocate_def is_get_decoded_picture_def
        is_mark_displayed_def is_read_access_unit_def picture_available_def)

lemma step_call_kinds:
  "is_step_call e \<Longrightarrow>
     \<not> is_enable_drain_mode e \<and> \<not> is_release e \<and> \<not> is_deallocate e"
  by (cases e)
     (simp_all add: is_step_call_def is_enable_drain_mode_def is_release_def is_deallocate_def)

lemma register_pool_calls: "e \<in> set (snd (register_pool app a)) \<Longrightarrow> is_pool_call e"
  by (auto simp: register_pool_def Let_def is_pool_call_def)

lemma pool_events_calls: "e \<in> set (pool_events K app a) \<Longrightarrow> is_pool_call e"
  by (auto simp: pool_events_def dest: register_pool_calls split: if_splits)

lemma picture_events_step_calls: "e \<in> set (picture_events K app a) \<Longrightarrow> is_step_call e"
  by (auto simp: picture_events_def output_picture_def Let_def is_step_call_def
      split: if_splits)

lemma step_events_step_calls: "e \<in> set (step_events K dec app a) \<Longrightarrow> is_step_call e"
  using pool_events_calls[THEN pool_call_kinds, of e K] picture_events_step_calls[of e K]
  by (auto simp: step_events_eq is_step_call_def split: if_splits)

lemma decode_loop_step_calls:
  assumes "decode_loop K dec app as = (r, app', evs, rest)"
  shows "\<forall>e\<in>set evs. is_step_call e"
  using assms
  by (induction rule: decode_loop_induct) (auto dest: step_events_step_calls)

section \<open>init, shutdown and the shape of a run\<close>

lemma parse_args_fields:
  "\<exists>i out. fst (parse_args app opts) = app\<lparr>infn := i, outfn := out\<rparr>"
proof (induction opts arbitrary: app)
  case Nil
  have "app = app\<lparr>infn := infn app, outfn := outfn app\<rparr>" by simp
  then show ?case by (metis parse_args.simps(1) fst_conv)
next
  case (Cons p opts)
  obtain opt optarg where p: "p = (opt, optarg)" by (cases p)
  show ?case
  proof (cases "opt = CHR ''i''")
    case True
    from Cons.IH[of "app\<lparr>infn := Some optarg\<rparr>"] show ?thesis
      by (auto simp: p True)
  next
    case False
    show ?thesis
    proof (cases "opt = CHR ''o''")
      case True
      from Cons.IH[of "app\<lparr>outfn := Some optarg\<rparr>"] show ?thesis
        by (auto simp: p True)
    next
      case F2: False
      have "app = app\<lparr>infn := infn app, outfn := outfn app\<rparr>" by simp
      then show ?thesis using False F2 by (metis p parse_args.simps(2) fst_conv)
    qed
  qed
qed

lemma init_ret:
  "fst (snd (init zero_AppData ia)) = (if init_fails ia then RETVAL_ERROR else RETVAL_OK)"
  by (auto simp: init_def init_fails_def Let_def split: prod.splits)

lemma init_calls: "e \<in> set (snd (snd (init app ia))) \<Longrightarrow> is_init_call e"
  by (auto simp: init_def Let_def is_init_call_def split: prod.splits if_splits)

lemma opened_app_fields:
  assumes "\<not> init_fails ia"
  shows "frame_id_counter (opened_app ia) = 100"
    and "num_framebuffers (opened_app ia) = 0"
    and "framebuffers (opened_app ia) = None"
    and "fb_dmabuffers (opened_app ia) = None"
    and "bitstream_buffer (opened_app ia) = bitstream_buffer_allocation ia"
proof -
  obtain i out where
    p: "fst (parse_args zero_AppData (getopt_results ia)) = zero_AppData\<lparr>infn := i, outfn := out\<rparr>"
    using parse_args_fields by blast
  obtain app1 parsed where pa: "parse_args zero_AppData (getopt_results ia) = (app1, parsed)"
    by (cases "parse_args zero_AppData (getopt_results ia)")
  with p have app1: "app1 = zero_AppData\<lparr>infn := i, outfn := out\<rparr>" by simp
  from assms pa obtain f1 f2 where
    ok: "parsed \<noteq> 0" "fopen_fin ia = Some f1" "fopen_fout ia = Some f2"
    by (auto simp: init_fails_def)
  show "frame_id_counter (opened_app ia) = 100"
    and "num_framebuffers (opened_app ia) = 0"
    and "framebuffers (opened_app ia) = None"
    and "fb_dmabuffers (opened_app ia) = None"
    and "bitstream_buffer (opened_app ia) = bitstream_buffer_allocation ia"
    by (simp_all add: opened_app_def init_def pa Let_def ok) (simp_all add: app1 zero_AppData_def)
qed

lemma init_allocated:
  assumes "\<not> init_fails ia"
  shows "allocated (snd (snd (init zero_AppData ia))) = [bitstream_buffer_allocation ia]"
  using assms
  by (auto simp: init_def init_fails_def Let_def allocated_def split: prod.splits)

lemma shutdown_calls:
  "shutdown app = Some (app', r, evs) \<Longrightarrow> e \<in> set evs \<Longrightarrow> is_shutdown_call e"
  by (auto simp: shutdown_def is_shutdown_call_def split: option.splits if_splits)

lemma shutdown_result:
  "shutdown app = Some (app', r, evs) \<Longrightarrow> app' = app \<and> r = RETVAL_OK"
  by (auto simp: shutdown_def split: option.splits)

lemma pool_reads_consistent:
  "pool_consistent app \<Longrightarrow>
     pool_reads app = Some (case fb_dmabuffers app of None \<Rightarrow> [] | Some bufs \<Rightarrow>
                              if num_framebuffers app = 0 then [] else bufs)"
  by (auto simp: pool_consistent_def pool_reads_def split: option.splits)

lemma pool_consistent_opened: "\<not> init_fails ia \<Longrightarrow> pool_consistent (opened_app ia)"
  by (simp add: pool_consistent_def opened_app_fields)

lemma pool_consistent_register: "pool_consistent (fst (register_pool app a))"
  by (simp add: pool_consistent_def register_pool_def Let_def)

lemma after_read_fields [simp]:
  "num_framebuffers (after_read app a) = num_framebuffers app"
  "fb_dmabuffers (after_read app a) = fb_dmabuffers app"
  "framebuffers (after_read app a) = framebuffers app"
  "frame_id_counter (after_read app a) = frame_id_counter app"
  "bitstream_buffer (after_read app a) = bitstream_buffer app"
  by (simp_all add: after_read_def)

lemma register_pool_fields [simp]:
  "frame_id_counter (fst (register_pool app a)) = frame_id_counter app"
  "bitstream_buffer (fst (register_pool app a)) = bitstream_buffer app"
  "num_framebuffers (fst (register_pool app a)) = min_num_required_framebuffers (get_initial_info a)"
  "fb_dmabuffers (fst (register_pool app a)) =
     Some (map (dma_allocation a) [0..<unat (min_num_required_framebuffers (get_initial_info a))])"
  by (simp_all add: register_pool_def Let_def)

lemma pool_app_fields [simp]:
  "frame_id_counter (pool_app K app a) = frame_id_counter app"
  "bitstream_buffer (pool_app K app a) = bitstream_buffer app"
  by (simp_all add: pool_app_def)

lemma pool_consistent_cong:
  "num_framebuffers app' = num_framebuffers app \<Longrightarrow> fb_dmabuffers app' = fb_dmabuffers app \<Longrightarrow>
     pool_consistent app' = pool_consistent app"
  by (simp add: pool_consistent_def)

lemma pool_consistent_pool_app:
  "pool_consistent app \<Longrightarrow> pool_consistent (pool_app K app a)"
  by (simp add: pool_app_def pool_consistent_register)

lemma pool_consistent_counter [simp]:
  "pool_consistent (app\<lparr>frame_id_counter := c\<rparr>) = pool_consistent app"
  by (simp add: pool_consistent_def)

lemma pool_consistent_step: "pool_consistent app \<Longrightarrow> pool_consistent (step_app K dec app a)"
proof -
  assume c: "pool_consistent app"
  have r: "pool_consistent (after_read app a)"
    using c by (simp add: pool_consistent_cong[of "after_read app a" app])
  show ?thesis
    using c r by (simp add: step_app_eq pool_consistent_pool_app)
qed

lemma decode_loop_pool_consistent:
  assumes "decode_loop K dec app as = (r, app', evs, rest)"
  shows "pool_consistent app \<Longrightarrow> pool_consistent app'"
  using assms
  by (induction rule: decode_loop_induct) (auto intro: pool_consistent_step)

text \<open>
  A run stands in one of four ways when the answers end; the branches of \<open>main\<close> for
  \<open>RETVAL_ERROR\<close> are never taken, since \<open>decode_frame\<close> does not return it, and
  \<open>shutdown\<close> never reads outside the pool array.
\<close>

lemma shutdown_consistent:
  "pool_consistent app \<Longrightarrow> \<exists>evs. shutdown app = Some (app, RETVAL_OK, evs)"
  by (simp add: shutdown_def pool_reads_consistent)

lemma main_cases [case_names init_failed decoding draining finished]:
  obtains (init_failed) "init_fails ia"
      "main K ia as = (Exit 1, opened_app ia, init_events ia)"
  | (decoding) app2 ev1 rest where "\<not> init_fails ia"
      "decode_loop K opened_decoder (opened_app ia) as = (None, app2, ev1, rest)"
      "main K ia as = (Answers_exhausted, app2, init_events ia @ ev1)"
  | (draining) app2 ev1 rest app3 ev2 rest' where "\<not> init_fails ia"
      "decode_loop K opened_decoder (opened_app ia) as = (Some RETVAL_EOS, app2, ev1, rest)"
      "decode_loop K draining_decoder app2 rest = (None, app3, ev2, rest')"
      "main K ia as = (Answers_exhausted, app3,
         init_events ia @ ev1 @ [Call_imx_vpu_dec_enable_drain_mode 1] @ ev2)"
  | (finished) app2 ev1 rest app3 ev2 rest' ev3 where "\<not> init_fails ia"
      "decode_loop K opened_decoder (opened_app ia) as = (Some RETVAL_EOS, app2, ev1, rest)"
      "decode_loop K draining_decoder app2 rest = (Some RETVAL_EOS, app3, ev2, rest')"
      "shutdown app3 = Some (app3, RETVAL_OK, ev3)"
      "main K ia as = (Exit 0, app3,
         init_events ia @ ev1 @ [Call_imx_vpu_dec_enable_drain_mode 1] @ ev2 @ ev3)"
proof (cases "init_fails ia")
  case True
  have i: "init zero_AppData ia = (opened_app ia, RETVAL_ERROR, init_events ia)"
    using True init_ret[of ia] by (simp add: opened_app_def init_events_def prod_eq_iff)
  have "main K ia as = (Exit 1, opened_app ia, init_events ia)"
    by (simp add: main_def i)
  with True show ?thesis by (rule init_failed)
next
  case False
  have i: "init zero_AppData ia = (opened_app ia, RETVAL_OK, init_events ia)"
    using False init_ret[of ia] by (simp add: opened_app_def init_events_def prod_eq_iff)
  obtain ret1 app2 ev1 rest where
    l1: "decode_loop K opened_decoder (opened_app ia) as = (ret1, app2, ev1, rest)"
    by (cases "decode_loop K opened_decoder (opened_app ia) as") auto
  have c2: "pool_consistent app2"
    using decode_loop_pool_consistent[OF l1] pool_consistent_opened[OF False] by simp
  from decode_loop_ret[OF l1] show ?thesis
  proof
    assume r1: "ret1 = None"
    have "main K ia as = (Answers_exhausted, app2, init_events ia @ ev1)"
      by (simp add: main_def i l1 r1)
    with False l1 r1 show ?thesis by (intro decoding[of app2 ev1 rest]) simp_all
  next
    assume r1: "ret1 = Some RETVAL_EOS"
    obtain ret2 app3 ev2 rest' where
      l2: "decode_loop K draining_decoder app2 rest = (ret2, app3, ev2, rest')"
      by (cases "decode_loop K draining_decoder app2 rest") auto
    have c3: "pool_consistent app3"
      using decode_loop_pool_consistent[OF l2] c2 by simp
    from decode_loop_ret[OF l2] show ?thesis
    proof
      assume r2: "ret2 = None"
      have "main K ia as = (Answers_exhausted, app3,
         init_events ia @ ev1 @ [Call_imx_vpu_dec_enable_drain_mode 1] @ ev2)"
        using l2 by (simp add: main_def i l1 r1 r2 Let_def draining_decoder_def)
      with False l1 r1 l2 r2 show ?thesis
        by (intro draining[of app2 ev1 rest app3 ev2 rest']) simp_all
    next
      assume r2: "ret2 = Some RETVAL_EOS"
      from shutdown_consistent[OF c3] obtain ev3 where
        s: "shutdown app3 = Some (app3, RETVAL_OK, ev3)" by blast
      have "main K ia as = (Exit 0, app3,
         init_events ia @ ev1 @ [Call_imx_vpu_dec_enable_drain_mode 1] @ ev2 @ ev3)"
        using l2
        by (simp add: main_def i l1 r1 r2 Let_def draining_decoder_def shutdown_and_return_def s)
      with False l1 r1 l2 r2 s show ?thesis
        by (intro finished[of app2 ev1 rest app3 ev2 rest' ev3]) simp_all
    qed
  qed
qed

section \<open>Claims about one step\<close>

lemma picture_events_dropped:
  "list_ex is_get_dropped_frame_context (picture_events K app a) =
     (dropped_flag K a \<and> \<not> decoded_picture_flag K a)"
  by (simp add: picture_events_def output_picture_def Let_def is_get_dropped_frame_context_def)

lemma pool_events_no_dropped:
  "\<not> list_ex is_get_dropped_frame_context (pool_events K app a)"
  using pool_events_calls[THEN pool_call_kinds] by (auto simp: list_ex_iff)

text \<open>
  C1 (amended). A decode step retrieves the dropped unit's context exactly when it
  submitted a unit, the output code has the DROPPED flag and does not have the
  DECODED_PICTURE_AVAILABLE flag: the test of DROPPED is the \<open>else\<close> branch of the test of
  DECODED_PICTURE_AVAILABLE (line 313).
\<close>

theorem dropped_context_retrieved_iff:
  "list_ex is_get_dropped_frame_context (step_events K dec app a) =
     (submits dec a \<and> dropped_flag K a \<and> \<not> decoded_picture_flag K a)"
  by (simp add: step_events_eq submits_def picture_events_dropped pool_events_no_dropped
      is_get_dropped_frame_context_def not_le)

text \<open>
  The claim as stated fails when both flags are set: output code 6 has DROPPED (4) and
  DECODED_PICTURE_AVAILABLE (2) in the sample codes, the step submits its unit, and no
  call retrieves the dropped context.
\<close>

theorem dropped_with_picture_counterexample:
  "submits opened_decoder (sample_step 6) \<and> dropped_flag sample_codes (sample_step 6) \<and>
   \<not> list_ex is_get_dropped_frame_context
        (step_events sample_codes opened_decoder (opened_app sample_init) (sample_step 6))"
  by code_simp

text \<open>
  C3 (amended). \<open>decode_frame\<close> never returns \<open>RETVAL_ERROR\<close>, and neither its result
  nor the state it leaves depends on the return code of any engine call: no return code is
  inspected. A hard failure of an engine call therefore does not make the step fatal, and
  a dropped frame does not either.
\<close>

theorem step_never_fatal:
  "step_ret K dec app a \<noteq> RETVAL_ERROR \<and>
   step_ret K dec app (a\<lparr>decode_ret := r1, get_initial_info_ret := r2,
       register_framebuffers_ret := r3, get_decoded_picture_ret := r4,
       mark_displayed_ret := r5\<rparr>) = step_ret K dec app a \<and>
   step_app K dec app (a\<lparr>decode_ret := r1, get_initial_info_ret := r2,
       register_framebuffers_ret := r3, get_decoded_picture_ret := r4,
       mark_displayed_ret := r5\<rparr>) = step_app K dec app a"
  by (simp add: step_ret_eq step_app_eq eos_flag_def pool_app_def initial_info_flag_def
      after_read_def register_pool_def Let_def)

text \<open>
  The claim as stated fails when \<open>imx_vpu_dec_decode\<close> reports a failure: the step
  returns \<open>RETVAL_OK\<close>, and \<open>main\<close> goes on with its first loop without a call of
  \<open>shutdown\<close>.
\<close>

theorem hard_failure_counterexample:
  "decode_ret sample_decode_fails = IMX_VPU_DEC_RETURN_CODE_ERROR \<and>
   step_ret sample_codes opened_decoder (opened_app sample_init) sample_decode_fails = RETVAL_OK \<and>
   fst (main sample_codes sample_init [sample_decode_fails]) = Answers_exhausted \<and>
   filter is_shutdown_call (trace (main sample_codes sample_init [sample_decode_fails])) = []"
  by code_simp

section \<open>The pool build\<close>

lemma allocated_simps [simp]:
  "allocated [] = []"
  "allocated (e # es) =
     (case e of Call_imx_vpu_dma_buffer_allocate n al p \<Rightarrow> [p] | _ \<Rightarrow> []) @ allocated es"
  "allocated (xs @ ys) = allocated xs @ allocated ys"
  by (simp_all add: allocated_def)

lemma deallocated_simps [simp]:
  "deallocated [] = []"
  "deallocated (e # es) =
     (case e of Call_imx_vpu_dma_buffer_deallocate p \<Rightarrow> [p] | _ \<Rightarrow> []) @ deallocated es"
  "deallocated (xs @ ys) = deallocated xs @ deallocated ys"
  by (simp_all add: deallocated_def)

lemma register_pool_allocated:
  "allocated (snd (register_pool app a)) =
     map (dma_allocation a) [0..<unat (min_num_required_framebuffers (get_initial_info a))]"
proof -
  have "\<And>xs A F. concat (map (\<lambda>e. case e of Call_imx_vpu_dma_buffer_allocate n al p \<Rightarrow> [p]
                                      | _ \<Rightarrow> [])
            (concat (map (\<lambda>i. [Call_imx_vpu_dma_buffer_allocate A F (dma_allocation a i),
                                Call_imx_vpu_dec_fill_framebuffer_params (dma_allocation a i)
                                  (0x2000 + of_nat i)]) xs)))
          = map (dma_allocation a) xs"
    by (induct_tac xs) simp_all
  then show ?thesis
    by (simp add: allocated_def register_pool_def Let_def)
qed

lemma register_pool_registers:
  "filter is_register (snd (register_pool app a)) =
     [Call_imx_vpu_dec_register_framebuffers
        (map (\<lambda>i. imx_vpu_dec_fill_framebuffer_params (calc_framebuffer_sizes a)
                      (dma_allocation a i) (0x2000 + of_nat i))
           [0..<unat (min_num_required_framebuffers (get_initial_info a))])
        (min_num_required_framebuffers (get_initial_info a))
        (register_framebuffers_ret a)]"
proof -
  have "\<And>xs A F. filter is_register
            (concat (map (\<lambda>i. [Call_imx_vpu_dma_buffer_allocate A F (dma_allocation a i),
                                Call_imx_vpu_dec_fill_framebuffer_params (dma_allocation a i)
                                  (0x2000 + of_nat i)]) xs)) = []"
    by (induct_tac xs) (simp_all add: is_register_def)
  then show ?thesis
    by (simp add: register_pool_def Let_def is_register_def)
qed

lemma step_call_not_deallocate:
  "is_step_call e \<Longrightarrow>
     (case e of Call_imx_vpu_dma_buffer_deallocate p \<Rightarrow> [p] | _ \<Rightarrow> []) = []"
  by (cases e) (simp_all add: is_step_call_def)

lemma step_calls_deallocated: "\<forall>e\<in>set evs. is_step_call e \<Longrightarrow> deallocated evs = []"
  by (induction evs) (simp_all add: step_call_not_deallocate)

lemma step_calls_no_release: "\<forall>e\<in>set evs. is_step_call e \<Longrightarrow> filter is_release evs = []"
  by (auto simp: filter_empty_conv dest: step_call_kinds)

lemma picture_events_allocated: "allocated (picture_events K app a) = []"
  by (simp add: picture_events_def output_picture_def Let_def)

lemma picture_events_registers: "filter is_register (picture_events K app a) = []"
  by (simp add: picture_events_def output_picture_def Let_def is_register_def)

text \<open>
  C2 (amended). A pool build triggered by the initial-info flag does not look at what the
  allocator returns. For a count \<open>n\<close> it requests exactly \<open>n\<close> buffers, stores each
  result, failed or not, in \<open>fb_dmabuffers\<close>, gives no buffer back, registers all \<open>n\<close>
  slots in one call, and the step's result is not \<open>RETVAL_ERROR\<close> and is the same for any
  other answers of the allocator.
\<close>

theorem pool_build_ignores_allocation_failure:
  assumes "submits dec a" and "initial_info_flag K a"
  shows "allocated (step_events K dec app a) =
           map (dma_allocation a) [0..<unat (min_num_required_framebuffers (get_initial_info a))] \<and>
         fb_dmabuffers (step_app K dec app a) =
           Some (map (dma_allocation a)
                   [0..<unat (min_num_required_framebuffers (get_initial_info a))]) \<and>
         num_framebuffers (step_app K dec app a) =
           min_num_required_framebuffers (get_initial_info a) \<and>
         deallocated (step_events K dec app a) = [] \<and>
         filter is_release (step_events K dec app a) = [] \<and>
         filter is_register (step_events K dec app a) =
           [Call_imx_vpu_dec_register_framebuffers
              (map (\<lambda>i. imx_vpu_dec_fill_framebuffer_params (calc_framebuffer_sizes a)
                            (dma_allocation a i) (0x2000 + of_nat i))
                 [0..<unat (min_num_required_framebuffers (get_initial_info a))])
              (min_num_required_framebuffers (get_initial_info a))
              (register_framebuffers_ret a)] \<and>
         step_ret K dec app a \<noteq> RETVAL_ERROR \<and>
         step_ret K dec app (a\<lparr>dma_allocation := f\<rparr>) = step_ret K dec app a"
proof -
  have calls: "\<forall>e\<in>set (step_events K dec app a). is_step_call e"
    by (simp add: step_events_step_calls)
  have 1: "allocated (step_events K dec app a) =
           map (dma_allocation a) [0..<unat (min_num_required_framebuffers (get_initial_info a))]"
    using assms
    by (auto simp: step_events_eq submits_def pool_events_def register_pool_allocated
        picture_events_allocated)
  have 2: "fb_dmabuffers (step_app K dec app a) =
           Some (map (dma_allocation a)
                   [0..<unat (min_num_required_framebuffers (get_initial_info a))]) \<and>
         num_framebuffers (step_app K dec app a) =
           min_num_required_framebuffers (get_initial_info a)"
    using assms by (auto simp: step_app_eq submits_def pool_app_def)
  have 3: "filter is_register (step_events K dec app a) =
           [Call_imx_vpu_dec_register_framebuffers
              (map (\<lambda>i. imx_vpu_dec_fill_framebuffer_params (calc_framebuffer_sizes a)
                            (dma_allocation a i) (0x2000 + of_nat i))
                 [0..<unat (min_num_required_framebuffers (get_initial_info a))])
              (min_num_required_framebuffers (get_initial_info a))
              (register_framebuffers_ret a)]"
    using assms
    by (auto simp: step_events_eq submits_def pool_events_def register_pool_registers
        picture_events_registers is_register_def)
  have 4: "step_ret K dec app (a\<lparr>dma_allocation := f\<rparr>) = step_ret K dec app a"
    by (simp add: step_ret_eq eos_flag_def)
  show ?thesis
    using 1 2 3 4 step_calls_deallocated[OF calls] step_calls_no_release[OF calls]
      step_ret_not_error[of K dec app a]
    by simp
qed

theorem pool_build_ignores_allocation_failure_witness:
  "submits opened_decoder sample_third_fails \<and> initial_info_flag sample_codes sample_third_fails \<and>
   allocated (step_events sample_codes opened_decoder (opened_app sample_init) sample_third_fails)
     = [Some 200, Some 201, None, Some 203, Some 204] \<and>
   deallocated (step_events sample_codes opened_decoder (opened_app sample_init) sample_third_fails)
     = []"
proof -
  have s: "submits opened_decoder sample_third_fails" by code_simp
  have i: "initial_info_flag sample_codes sample_third_fails" by code_simp
  have m: "map (dma_allocation sample_third_fails)
             [0..<unat (min_num_required_framebuffers (get_initial_info sample_third_fails))]
           = [Some 200, Some 201, None, Some 203, Some 204]" by code_simp
  show ?thesis
    using pool_build_ignores_allocation_failure[OF s i, of "opened_app sample_init" "\<lambda>i. None"] s i m
    by simp
qed

text \<open>
  The claim as stated fails when the third of five allocations fails: the step returns
  \<open>RETVAL_OK\<close>, no buffer is given back, and \<open>main\<close> makes the next decode call.
\<close>

theorem allocation_failure_counterexample:
  "dma_allocation sample_third_fails 2 = None \<and>
   step_ret sample_codes opened_decoder (opened_app sample_init) sample_third_fails = RETVAL_OK \<and>
   deallocated (step_events sample_codes opened_decoder (opened_app sample_init)
                  sample_third_fails) = [] \<and>
   length (filter is_decode
             (trace (main sample_codes sample_init [sample_third_fails, sample_step 0]))) = 2"
  by code_simp

section \<open>Submissions and the frame-id counter\<close>

lemma init_call_kinds:
  "is_init_call e \<Longrightarrow>
     \<not> is_decode e \<and> \<not> is_drain_query e \<and> \<not> is_get_decoded_picture e \<and>
     \<not> is_mark_displayed e \<and> \<not> picture_available K e \<and> \<not> is_enable_drain_mode e \<and>
     \<not> is_release e \<and> \<not> is_read_access_unit e \<and> \<not> source_exhausted e \<and>
     \<not> engine_eos K e \<and> \<not> is_pool_build e \<and> \<not> is_deallocate e"
  by (cases e)
     (simp_all add: is_init_call_def is_decode_def is_drain_query_def is_get_decoded_picture_def
        is_mark_displayed_def picture_available_def is_enable_drain_mode_def is_release_def
        is_read_access_unit_def source_exhausted_def engine_eos_def is_pool_build_def
        is_deallocate_def)

lemma shutdown_call_kinds:
  "is_shutdown_call e \<Longrightarrow>
     \<not> is_decode e \<and> \<not> is_drain_query e \<and> \<not> is_get_decoded_picture e \<and>
     \<not> is_mark_displayed e \<and> \<not> picture_available K e \<and> \<not> is_enable_drain_mode e \<and>
     \<not> is_read_access_unit e \<and> \<not> source_exhausted e \<and> \<not> engine_eos K e \<and>
     \<not> is_pool_build e \<and> \<not> is_allocate e"
  by (cases e)
     (simp_all add: is_shutdown_call_def is_decode_def is_drain_query_def
        is_get_decoded_picture_def is_mark_displayed_def picture_available_def
        is_enable_drain_mode_def is_read_access_unit_def source_exhausted_def engine_eos_def
        is_pool_build_def is_allocate_def)

lemma init_events_calls: "e \<in> set (init_events ia) \<Longrightarrow> is_init_call e"
  by (simp add: init_events_def init_calls)

lemma submissions_append:
  "submissions d (xs @ ys) = submissions d xs @ submissions (last_query d xs) ys"
  by (induction xs arbitrary: d) (simp_all split: event.split)

lemma submissions_neutral:
  "\<forall>e\<in>set xs. \<not> is_decode e \<and> \<not> is_drain_query e \<Longrightarrow>
     submissions d xs = [] \<and> last_query d xs = d"
  by (induction xs arbitrary: d)
     (auto simp: is_decode_def is_drain_query_def split: event.splits)

lemma pool_call_no_query: "is_pool_call e \<Longrightarrow> \<not> is_drain_query e"
  by (cases e) (simp_all add: is_pool_call_def is_drain_query_def)

lemma pool_events_neutral:
  "submissions d (pool_events K app a) = [] \<and> last_query d (pool_events K app a) = d"
  using pool_events_calls[THEN pool_call_kinds] pool_events_calls[THEN pool_call_no_query]
  by (intro submissions_neutral) blast

lemma picture_events_neutral:
  "submissions d (picture_events K app a) = [] \<and> last_query d (picture_events K app a) = d"
  by (simp add: picture_events_def output_picture_def Let_def)

lemma step_submissions:
  "submissions d (step_events K dec app a) =
     (if drain_mode dec then [(True, drain_frame)]
      else if submits dec a then [(False, regular_frame (after_read app a))]
      else [])"
  by (simp add: step_events_eq submits_def submissions_append pool_events_neutral
      picture_events_neutral not_le)

lemma last_query_append: "last_query d (xs @ ys) = last_query (last_query d xs) ys"
  by (induction xs arbitrary: d) (simp_all split: event.split)

lemma step_last_query: "last_query d (step_events K dec app a) = drain_mode dec"
  by (simp add: step_events_eq last_query_append pool_events_neutral picture_events_neutral)

lemma length_submissions: "length (submissions d evs) = length (filter is_decode evs)"
  by (induction evs arbitrary: d) (simp_all add: is_decode_def split: event.split)

lemma step_counter:
  "frame_id_counter (step_app K dec app a) =
     (if submits dec a then frame_id_counter app + 1 else frame_id_counter app)"
  by (simp add: step_app_eq submits_def not_le)

lemma step_decodes:
  "length (filter is_decode (step_events K dec app a)) = (if submits dec a then 1 else 0)"
  unfolding length_submissions[of False, symmetric]
  by (simp add: step_submissions submits_def)

lemma decode_loop_counter:
  assumes "decode_loop K dec app as = (r, app', evs, rest)"
  shows "frame_id_counter app' = frame_id_counter app + of_nat (length (filter is_decode evs))"
  using assms
  by (induction rule: decode_loop_induct) (simp_all add: step_counter step_decodes)

lemma shifted_contexts:
  "map (\<lambda>i. (False, c + 1 + of_nat i :: voidp)) [0..<n] =
     map (\<lambda>i. (False, c + of_nat i)) [Suc 0..<Suc n]"
proof -
  have "map (\<lambda>i. (False, c + of_nat i :: voidp)) [Suc 0..<Suc n] =
        map (\<lambda>i. (False, c + of_nat i)) (map Suc [0..<n])"
    by (simp only: map_Suc_upt)
  also have "\<dots> = map (\<lambda>i. (False, c + 1 + of_nat i)) [0..<n]"
    by (simp add: ac_simps)
  finally show ?thesis by simp
qed

lemma contexts_Suc:
  "map (\<lambda>i. (False, c + of_nat i :: voidp)) [0..<Suc n] =
     (False, c) # map (\<lambda>i. (False, c + 1 + of_nat i)) [0..<n]"
proof -
  have "[0..<Suc n] = 0 # [Suc 0..<Suc n]" by (rule upt_conv_Cons) simp
  then show ?thesis unfolding shifted_contexts by simp
qed

lemma decode_loop_regular_contexts:
  assumes "decode_loop K dec app as = (r, app', evs, rest)" and "\<not> drain_mode dec"
  shows "map (\<lambda>s. (fst s, frame_context (snd s))) (submissions d evs) =
           map (\<lambda>i. (False, frame_id_counter app + of_nat i)) [0..<length (filter is_decode evs)]
         \<and> last_query d evs = (if evs = [] then d else False)"
  using assms
proof (induction arbitrary: d rule: decode_loop_induct)
  case (empty app)
  then show ?case by simp
next
  case (stop app a)
  have ne: "step_events K dec app a \<noteq> []" by (simp add: step_events_eq)
  from stop show ?case
    by (simp add: step_submissions step_decodes step_last_query regular_frame_def ne)
next
  case (step app a r app' evs)
  have ne: "step_events K dec app a \<noteq> []" by (simp add: step_events_eq)
  show ?case
  proof (cases "submits dec a")
    case True
    with step show ?thesis
      by (simp add: submissions_append step_submissions step_decodes step_last_query
          step_counter last_query_append regular_frame_def contexts_Suc ne
          del: upt_Suc)
  next
    case False
    with step show ?thesis
      by (simp add: submissions_append step_submissions step_decodes step_last_query
          step_counter last_query_append ne)
  qed
qed

lemma decode_loop_drain_frames:
  assumes "decode_loop K dec app as = (r, app', evs, rest)" and "drain_mode dec"
  shows "submissions d evs = replicate (length (filter is_decode evs)) (True, drain_frame)
         \<and> last_query d evs = (if evs = [] then d else True)"
  using assms
proof (induction arbitrary: d rule: decode_loop_induct)
  case (empty app)
  then show ?case by simp
next
  case (stop app a)
  have ne: "step_events K dec app a \<noteq> []" by (simp add: step_events_eq)
  from stop show ?case
    by (simp add: step_submissions step_decodes step_last_query submits_def ne)
next
  case (step app a r app' evs)
  have ne: "step_events K dec app a \<noteq> []" by (simp add: step_events_eq)
  from step show ?case
    by (simp add: submissions_append step_submissions step_decodes step_last_query
        last_query_append submits_def ne)
qed

lemma init_events_neutral:
  "submissions d (init_events ia) = [] \<and> last_query d (init_events ia) = d"
  using init_events_calls[THEN init_call_kinds]
  by (intro submissions_neutral) blast

lemma shutdown_neutral:
  "shutdown app = Some (app', r, evs) \<Longrightarrow> submissions d evs = [] \<and> last_query d evs = d"
  using shutdown_calls[THEN shutdown_call_kinds]
  by (intro submissions_neutral) blast

lemma init_events_no_decode: "filter is_decode (init_events ia) = []"
  using init_events_calls[THEN init_call_kinds] by (auto simp: filter_empty_conv)

lemma shutdown_no_decode:
  "shutdown app = Some (app', r, evs) \<Longrightarrow> filter is_decode evs = []"
  using shutdown_calls[THEN shutdown_call_kinds] by (auto simp: filter_empty_conv)

lemma draining_decoder_drains [simp]: "drain_mode draining_decoder"
  by (simp add: draining_decoder_def imx_vpu_dec_enable_drain_mode_def)

lemma opened_decoder_regular [simp]: "\<not> drain_mode opened_decoder"
  by (simp add: opened_decoder_def)

lemma main_counter:
  assumes "\<not> init_fails ia"
  shows "frame_id_counter (final_app (main K ia as)) =
           100 + of_nat (length (filter is_decode (trace (main K ia as))))"
proof (cases rule: main_cases[of ia K as])
  case init_failed
  with assms show ?thesis by simp
next
  case (decoding app2 ev1 rest)
  from decode_loop_counter[OF decoding(2)] show ?thesis
    by (simp add: decoding(3) final_app_def trace_def opened_app_fields[OF assms]
        init_events_no_decode)
next
  case (draining app2 ev1 rest app3 ev2 rest')
  from decode_loop_counter[OF draining(2)] decode_loop_counter[OF draining(3)] show ?thesis
    by (simp add: draining(4) final_app_def trace_def opened_app_fields[OF assms]
        init_events_no_decode is_decode_def)
next
  case (finished app2 ev1 rest app3 ev2 rest' ev3)
  from decode_loop_counter[OF finished(2)] decode_loop_counter[OF finished(3)] show ?thesis
    by (simp add: finished(5) final_app_def trace_def opened_app_fields[OF assms]
        init_events_no_decode shutdown_no_decode[OF finished(4)] is_decode_def)
qed

text \<open>
  The submissions of a run: first the regular ones, with the contexts 100, 101 and so on,
  then the drain-mode ones, each the empty unit.
\<close>

lemma main_submissions:
  "\<exists>k1 k2.
     map (\<lambda>s. (fst s, frame_context (snd s))) (submissions False (trace (main K ia as))) =
       map (\<lambda>i. (False, 100 + of_nat i)) [0..<k1] @ replicate k2 (True, 0) \<and>
     map snd (filter fst (submissions False (trace (main K ia as)))) = replicate k2 drain_frame"
proof (cases rule: main_cases[of ia K as])
  case init_failed
  have "submissions False (trace (main K ia as)) = []"
    by (simp add: init_failed(2) trace_def init_events_neutral)
  then show ?thesis by (intro exI[of _ 0]) simp
next
  case (decoding app2 ev1 rest)
  have tr: "submissions False (trace (main K ia as)) = submissions False ev1"
    by (simp add: decoding(3) trace_def submissions_append init_events_neutral)
  from decode_loop_regular_contexts[OF decoding(2), of False]
  have m: "map (\<lambda>s. (fst s, frame_context (snd s))) (submissions False ev1) =
      map (\<lambda>i. (False, 100 + of_nat i)) [0..<length (filter is_decode ev1)]"
    by (simp add: opened_app_fields[OF decoding(1)])
  have f: "filter fst (submissions False ev1) = []"
  proof -
    have "\<forall>s\<in>set (map (\<lambda>s. (fst s, frame_context (snd s))) (submissions False ev1)). \<not> fst s"
      unfolding m by auto
    then show ?thesis by (auto simp: filter_empty_conv)
  qed
  show ?thesis
    by (intro exI[of _ "length (filter is_decode ev1)"] exI[of _ 0]) (simp add: tr m f)
next
  case (draining app2 ev1 rest app3 ev2 rest')
  have tr: "submissions False (trace (main K ia as)) =
      submissions False ev1 @ submissions (last_query False ev1) ev2"
    by (simp add: draining(4) trace_def submissions_append init_events_neutral)
  from decode_loop_regular_contexts[OF draining(2), of False]
  have m: "map (\<lambda>s. (fst s, frame_context (snd s))) (submissions False ev1) =
      map (\<lambda>i. (False, 100 + of_nat i)) [0..<length (filter is_decode ev1)]"
    by (simp add: opened_app_fields[OF draining(1)])
  have f: "filter fst (submissions False ev1) = []"
  proof -
    have "\<forall>s\<in>set (map (\<lambda>s. (fst s, frame_context (snd s))) (submissions False ev1)). \<not> fst s"
      unfolding m by auto
    then show ?thesis by (auto simp: filter_empty_conv)
  qed
  from decode_loop_drain_frames[OF draining(3), of "last_query False ev1"]
  have d: "submissions (last_query False ev1) ev2 =
      replicate (length (filter is_decode ev2)) (True, drain_frame)"
    by simp
  show ?thesis
    by (intro exI[of _ "length (filter is_decode ev1)"] exI[of _ "length (filter is_decode ev2)"])
       (simp add: tr m f d drain_frame_def)
next
  case (finished app2 ev1 rest app3 ev2 rest' ev3)
  have tr: "submissions False (trace (main K ia as)) =
      submissions False ev1 @ submissions (last_query False ev1) ev2"
    by (simp add: finished(5) trace_def submissions_append init_events_neutral
        shutdown_neutral[OF finished(4)])
  from decode_loop_regular_contexts[OF finished(2), of False]
  have m: "map (\<lambda>s. (fst s, frame_context (snd s))) (submissions False ev1) =
      map (\<lambda>i. (False, 100 + of_nat i)) [0..<length (filter is_decode ev1)]"
    by (simp add: opened_app_fields[OF finished(1)])
  have f: "filter fst (submissions False ev1) = []"
  proof -
    have "\<forall>s\<in>set (map (\<lambda>s. (fst s, frame_context (snd s))) (submissions False ev1)). \<not> fst s"
      unfolding m by auto
    then show ?thesis by (auto simp: filter_empty_conv)
  qed
  from decode_loop_drain_frames[OF finished(3), of "last_query False ev1"]
  have d: "submissions (last_query False ev1) ev2 =
      replicate (length (filter is_decode ev2)) (True, drain_frame)"
    by simp
  show ?thesis
    by (intro exI[of _ "length (filter is_decode ev1)"] exI[of _ "length (filter is_decode ev2)"])
       (simp add: tr m f d drain_frame_def)
qed

lemma regular_contexts_mapped:
  "regular_contexts tr =
     map snd (filter (\<lambda>p. \<not> fst p)
       (map (\<lambda>s. (fst s, frame_context (snd s))) (submissions False tr)))"
  by (simp add: regular_contexts_def filter_map comp_def)

lemma main_regular_contexts:
  "regular_contexts (trace (main K ia as)) =
     map (\<lambda>i. 100 + of_nat i) [0..<length (regular_contexts (trace (main K ia as)))]"
proof -
  from main_submissions[of K ia as] obtain k1 k2 where
    m: "map (\<lambda>s. (fst s, frame_context (snd s))) (submissions False (trace (main K ia as))) =
       map (\<lambda>i. (False, 100 + of_nat i)) [0..<k1] @ replicate k2 (True, 0)"
    by blast
  have "regular_contexts (trace (main K ia as)) = map (\<lambda>i. 100 + of_nat i) [0..<k1]"
    unfolding regular_contexts_mapped m by (simp add: filter_map comp_def)
  then show ?thesis by simp
qed

lemma context_unat: "i < 2 ^ 32 - 100 \<Longrightarrow> unat (100 + of_nat i :: voidp) = 100 + i"
proof -
  assume a: "i < 2 ^ 32 - 100"
  have "(of_nat (100 + i) :: voidp) = 100 + of_nat i" by simp
  moreover have "100 + i < 2 ^ LENGTH(32)" using a by simp
  ultimately show ?thesis by (rule of_nat_inverse)
qed

lemma contexts_increasing:
  assumes "n \<le> 2 ^ 32 - 100"
  shows "sorted_wrt (<) (map (\<lambda>i. 100 + of_nat i :: voidp) [0..<n]) \<and>
         distinct (map (\<lambda>i. 100 + of_nat i :: voidp) [0..<n]) \<and>
         0 \<notin> set (map (\<lambda>i. 100 + of_nat i :: voidp) [0..<n])"
proof -
  have u: "\<And>i. i < n \<Longrightarrow> unat (100 + of_nat i :: voidp) = 100 + i"
    using assms by (intro context_unat) simp
  have "sorted_wrt (\<lambda>i j. (100 + of_nat i :: voidp) < 100 + of_nat j) [0..<n]"
    by (rule sorted_wrt_mono_rel[where P = "(<)"]) (auto simp: word_less_nat_alt u)
  then have s: "sorted_wrt (<) (map (\<lambda>i. 100 + of_nat i :: voidp) [0..<n])"
    by (simp add: sorted_wrt_map)
  then have d: "distinct (map (\<lambda>i. 100 + of_nat i :: voidp) [0..<n])"
    using strict_sorted_iff by blast
  have z: "0 \<notin> set (map (\<lambda>i. 100 + of_nat i :: voidp) [0..<n])"
  proof
    assume "0 \<in> set (map (\<lambda>i. 100 + of_nat i :: voidp) [0..<n])"
    then obtain i where "i < n" "(100 + of_nat i :: voidp) = 0" by auto
    with u[of i] show False by (metis add_is_0 unat_0 zero_neq_numeral)
  qed
  from s d z show ?thesis by simp
qed

section \<open>Claims about the frame context\<close>

text \<open>
  C4 (amended). The frame-id counter is incremented exactly once by every step that
  submits a unit to the engine, in drain mode as well as in regular mode (line 327 is
  outside both branches), and is left alone by a step that returns at the end of the
  input. A drain-mode submission carries the context 0 (\<open>NULL\<close>), a regular one the
  value of the counter before the increment. The counter is never reset: whenever the
  answers end, it is 100 plus the number of decode calls made so far in the session.
\<close>

theorem counter_incremented_by_every_submission:
  "frame_id_counter (step_app K dec app a) =
     (if submits dec a then frame_id_counter app + 1 else frame_id_counter app) \<and>
   length (filter is_decode (step_events K dec app a)) = (if submits dec a then 1 else 0) \<and>
   submissions d (step_events K dec app a) =
     (if drain_mode dec then [(True, drain_frame)]
      else if submits dec a then [(False, regular_frame (after_read app a))]
      else []) \<and>
   frame_context drain_frame = 0 \<and>
   frame_context (regular_frame (after_read app a)) = frame_id_counter app \<and>
   (\<not> init_fails ia \<longrightarrow>
      frame_id_counter (final_app (main K ia as)) =
        100 + of_nat (length (filter is_decode (trace (main K ia as)))))"
  by (simp add: step_counter step_decodes step_submissions main_counter drain_frame_def
      regular_frame_def)

theorem counter_incremented_by_every_submission_witness:
  "\<not> init_fails sample_init \<and>
   length (filter is_decode (trace (main sample_codes sample_init
      [sample_step 0, sample_no_unit, sample_step 0, sample_step 8]))) = 3 \<and>
   frame_id_counter (final_app (main sample_codes sample_init
      [sample_step 0, sample_no_unit, sample_step 0, sample_step 8])) = 103"
proof -
  have i: "\<not> init_fails sample_init" by code_simp
  have n: "length (filter is_decode (trace (main sample_codes sample_init
      [sample_step 0, sample_no_unit, sample_step 0, sample_step 8]))) = 3" by code_simp
  from counter_incremented_by_every_submission[of sample_codes opened_decoder
      "opened_app sample_init" "sample_step 0" False sample_init
      "[sample_step 0, sample_no_unit, sample_step 0, sample_step 8]"] i
  have "frame_id_counter (final_app (main sample_codes sample_init
      [sample_step 0, sample_no_unit, sample_step 0, sample_step 8])) =
        100 + of_nat (length (filter is_decode (trace (main sample_codes sample_init
      [sample_step 0, sample_no_unit, sample_step 0, sample_step 8]))))"
    by blast
  with i n show ?thesis by simp
qed

text \<open>
  The claim as stated fails for a drain-mode submission: it increments the counter too.
  In the run below the source is empty, so that no regular unit is ever submitted, and the
  two drain-mode submissions take the counter from 100 to 102.
\<close>

theorem drain_submission_counterexample:
  "drain_mode draining_decoder \<and>
   frame_id_counter (opened_app sample_init) = 100 \<and>
   frame_id_counter (step_app sample_codes draining_decoder (opened_app sample_init)
                       (sample_step 0)) = 101 \<and>
   regular_contexts (trace (main sample_codes sample_init
      [sample_no_unit, sample_step 0, sample_step 8])) = [] \<and>
   frame_id_counter (final_app (main sample_codes sample_init
      [sample_no_unit, sample_step 0, sample_step 8])) = 102"
  by code_simp

text \<open>
  C6. The contexts attached to the regular (non-drain) submissions of a session are 100,
  101, 102 and so on, in the order of submission. As long as there are at most
  \<open>2^32 - 100\<close> of them, so that the 32-bit counter has not wrapped around (the spec leaves
  the behaviour at wrap-around open), they are strictly increasing, pairwise distinct and
  different from 0.
\<close>

theorem regular_contexts_strictly_increasing:
  "regular_contexts (trace (main K ia as)) =
     map (\<lambda>i. 100 + of_nat i) [0..<length (regular_contexts (trace (main K ia as)))] \<and>
   (length (regular_contexts (trace (main K ia as))) \<le> 2 ^ 32 - 100 \<longrightarrow>
      sorted_wrt (<) (regular_contexts (trace (main K ia as))) \<and>
      distinct (regular_contexts (trace (main K ia as))) \<and>
      0 \<notin> set (regular_contexts (trace (main K ia as))))"
proof -
  let ?cs = "regular_contexts (trace (main K ia as))"
  have e: "?cs = map (\<lambda>i. 100 + of_nat i) [0..<length ?cs]"
    by (rule main_regular_contexts)
  have "length ?cs \<le> 2 ^ 32 - 100 \<longrightarrow> sorted_wrt (<) ?cs \<and> distinct ?cs \<and> 0 \<notin> set ?cs"
  proof
    assume "length ?cs \<le> 2 ^ 32 - 100"
    from contexts_increasing[OF this] show "sorted_wrt (<) ?cs \<and> distinct ?cs \<and> 0 \<notin> set ?cs"
      using e by simp
  qed
  with e show ?thesis by blast
qed

theorem regular_contexts_strictly_increasing_witness:
  "length (regular_contexts (trace (main sample_codes sample_init
      [sample_step 1, sample_step 2, sample_step 4, sample_no_unit, sample_step 2, sample_step 8])))
     \<le> 2 ^ 32 - 100 \<and>
   regular_contexts (trace (main sample_codes sample_init
      [sample_step 1, sample_step 2, sample_step 4, sample_no_unit, sample_step 2, sample_step 8]))
     = [100, 101, 102] \<and>
   sorted_wrt (<) (regular_contexts (trace (main sample_codes sample_init
      [sample_step 1, sample_step 2, sample_step 4, sample_no_unit, sample_step 2, sample_step 8])))"
proof -
  let ?cs = "regular_contexts (trace (main sample_codes sample_init
      [sample_step 1, sample_step 2, sample_step 4, sample_no_unit, sample_step 2, sample_step 8]))"
  have v: "?cs = [100, 101, 102]" by code_simp
  then have l: "length ?cs \<le> 2 ^ 32 - 100" by simp
  from regular_contexts_strictly_increasing[of sample_codes sample_init
      "[sample_step 1, sample_step 2, sample_step 4, sample_no_unit, sample_step 2, sample_step 8]"] l
  have "sorted_wrt (<) ?cs" by blast
  with v l show ?thesis by blast
qed

section \<open>Pictures and slots\<close>

lemma marks_simps [simp]:
  "marks [] = 0"
  "marks (e # es) = (if is_mark_displayed e then 1 else 0) + marks es"
  "marks (xs @ ys) = marks xs + marks ys"
  by (simp_all add: marks_def)

lemma pictures_available_simps [simp]:
  "pictures_available K [] = 0"
  "pictures_available K (e # es) = (if picture_available K e then 1 else 0) + pictures_available K es"
  "pictures_available K (xs @ ys) = pictures_available K xs + pictures_available K ys"
  by (simp_all add: pictures_available_def)

lemma marks_take_le: "marks (take n xs) \<le> marks xs"
proof -
  have "marks xs = marks (take n xs) + marks (drop n xs)"
    by (metis marks_simps(3) append_take_drop_id)
  then show ?thesis by simp
qed

lemma marks_neutral: "\<forall>e\<in>set xs. \<not> is_mark_displayed e \<Longrightarrow> marks xs = 0"
  by (induction xs) simp_all

lemma pictures_neutral: "\<forall>e\<in>set xs. \<not> picture_available K e \<Longrightarrow> pictures_available K xs = 0"
  by (induction xs) simp_all

lemma balanced_split:
  assumes "marks xs = 0" and "pictures_available K ys = 0"
    and "marks ys = pictures_available K xs"
  shows "balanced K (xs @ ys)"
proof -
  have "marks (take n (xs @ ys)) \<le> pictures_available K (take n (xs @ ys))" for n
  proof (cases "n < length xs")
    case True
    have "marks (take n xs) \<le> marks xs" by (rule marks_take_le)
    with assms(1) True show ?thesis by simp
  next
    case False
    have "marks (take (n - length xs) ys) \<le> marks ys" by (rule marks_take_le)
    with assms False show ?thesis by simp
  qed
  with assms show ?thesis by (simp add: balanced_def)
qed

lemma balanced_neutral:
  "\<forall>e\<in>set xs. \<not> is_mark_displayed e \<and> \<not> picture_available K e \<Longrightarrow> balanced K xs"
  using balanced_split[of xs K "[]"] by (simp add: marks_neutral pictures_neutral)

lemma balanced_append:
  assumes "balanced K xs" and "balanced K ys"
  shows "balanced K (xs @ ys)"
proof -
  have "marks (take n (xs @ ys)) \<le> pictures_available K (take n (xs @ ys))" for n
  proof (cases "n < length xs")
    case True
    with assms(1) show ?thesis by (simp add: balanced_def)
  next
    case False
    from assms have "marks xs = pictures_available K xs"
      "marks (take (n - length xs) ys) \<le> pictures_available K (take (n - length xs) ys)"
      by (simp_all add: balanced_def)
    with False show ?thesis by simp
  qed
  with assms show ?thesis by (simp add: balanced_def)
qed

lemma pool_events_quiet:
  "marks (pool_events K app a) = 0 \<and> pictures_available K (pool_events K app a) = 0"
  using pool_events_calls[THEN pool_call_kinds]
  by (simp add: marks_neutral pictures_neutral)

lemma picture_events_counts:
  "marks (picture_events K app a) = (if decoded_picture_flag K a then 1 else 0) \<and>
   pictures_available K (picture_events K app a) = 0"
  by (simp add: picture_events_def output_picture_def Let_def is_mark_displayed_def
      picture_available_def)

lemma step_balanced: "balanced K (step_events K dec app a)"
proof (cases "submits dec a")
  case False
  then show ?thesis
    by (intro balanced_neutral)
       (simp add: step_events_eq submits_def is_mark_displayed_def picture_available_def)
next
  case True
  define pre where "pre =
    (if drain_mode dec
     then [Call_imx_vpu_dec_is_drain_mode_enabled True,
           Call_imx_vpu_dec_decode drain_frame (decode_ret a) (decode_output_code a)]
     else [Call_imx_vpu_dec_is_drain_mode_enabled False,
           Call_h264_ctx_read_access_unit (read_access_unit_ret a) (read_au_start_offset a)
             (read_au_end_offset a),
           Call_imx_vpu_dec_decode (regular_frame (after_read app a)) (decode_ret a)
             (decode_output_code a)])"
  define app1 where "app1 = (if drain_mode dec then app else after_read app a)"
  have ev: "step_events K dec app a =
      pre @ (pool_events K app1 a @ picture_events K (pool_app K app1 a) a)"
    using True by (auto simp: step_events_eq submits_def pre_def app1_def)
  have 1: "marks pre = 0" by (simp add: pre_def is_mark_displayed_def)
  have 2: "pictures_available K pre = (if decoded_picture_flag K a then 1 else 0)"
    by (simp add: pre_def picture_available_def decoded_picture_flag_def)
  show ?thesis
    unfolding ev
    by (rule balanced_split) (simp_all add: 1 2 pool_events_quiet picture_events_counts)
qed

lemma decode_loop_balanced:
  assumes "decode_loop K dec app as = (r, app', evs, rest)"
  shows "balanced K evs"
  using assms
proof (induction rule: decode_loop_induct)
  case (empty app)
  show ?case by (simp add: balanced_def)
next
  case (stop app a)
  show ?case by (rule step_balanced)
next
  case (step app a r app' evs)
  then show ?case by (intro balanced_append step_balanced)
qed

lemma init_events_balanced: "balanced K (init_events ia)"
  using init_events_calls[THEN init_call_kinds] by (intro balanced_neutral) blast

lemma shutdown_balanced: "shutdown app = Some (app', r, evs) \<Longrightarrow> balanced K evs"
  using shutdown_calls[THEN shutdown_call_kinds] by (intro balanced_neutral) blast

lemma enable_balanced: "balanced K [Call_imx_vpu_dec_enable_drain_mode n]"
  by (intro balanced_neutral) (simp add: is_mark_displayed_def picture_available_def)

lemma main_balanced: "balanced K (trace (main K ia as))"
proof (cases rule: main_cases[of ia K as])
  case init_failed
  then show ?thesis by (simp add: trace_def init_events_balanced)
next
  case (decoding app2 ev1 rest)
  then show ?thesis
    by (simp add: trace_def balanced_append init_events_balanced decode_loop_balanced)
next
  case (draining app2 ev1 rest app3 ev2 rest')
  have "balanced K (init_events ia @ ev1 @ [Call_imx_vpu_dec_enable_drain_mode 1] @ ev2)"
    by (intro balanced_append init_events_balanced enable_balanced
        decode_loop_balanced[OF draining(2)] decode_loop_balanced[OF draining(3)])
  then show ?thesis by (simp add: draining(4) trace_def)
next
  case (finished app2 ev1 rest app3 ev2 rest' ev3)
  have "balanced K (init_events ia @ ev1 @ [Call_imx_vpu_dec_enable_drain_mode 1] @ ev2 @ ev3)"
    by (intro balanced_append init_events_balanced enable_balanced
        decode_loop_balanced[OF finished(2)] decode_loop_balanced[OF finished(3)]
        shutdown_balanced[OF finished(4)])
  then show ?thesis by (simp add: finished(5) trace_def)
qed

lemma owned_run_append:
  "owned_run owned (xs @ ys) =
     (case owned_run owned xs of None \<Rightarrow> None | Some owned' \<Rightarrow> owned_run owned' ys)"
  by (induction xs arbitrary: owned) (simp_all split: event.split)

lemma owned_run_neutral:
  "\<forall>e\<in>set xs. \<not> is_get_decoded_picture e \<and> \<not> is_mark_displayed e \<Longrightarrow>
     owned_run owned xs = Some owned"
  by (induction xs arbitrary: owned)
     (auto simp: is_get_decoded_picture_def is_mark_displayed_def split: event.splits)

lemma picture_events_owned: "owned_run owned (picture_events K app a) = Some owned"
  by (simp add: picture_events_def output_picture_def Let_def)

lemma step_owned: "owned_run owned (step_events K dec app a) = Some owned"
proof -
  have p: "owned_run owned (pool_events K app' a) = Some owned" for app'
    using pool_events_calls[THEN pool_call_kinds] by (intro owned_run_neutral) blast
  show ?thesis
    by (simp add: step_events_eq owned_run_append p picture_events_owned)
qed

lemma decode_loop_owned:
  assumes "decode_loop K dec app as = (r, app', evs, rest)"
  shows "owned_run owned evs = Some owned"
  using assms
  by (induction rule: decode_loop_induct) (simp_all add: owned_run_append step_owned)

lemma main_owned: "owned_run [] (trace (main K ia as)) = Some []"
proof -
  have i: "owned_run owned (init_events ia) = Some owned" for owned
    using init_events_calls[THEN init_call_kinds] by (intro owned_run_neutral) blast
  have s: "shutdown app = Some (app', r, evs) \<Longrightarrow> owned_run owned evs = Some owned"
    for app app' r evs owned
    using shutdown_calls[THEN shutdown_call_kinds] by (intro owned_run_neutral) blast
  show ?thesis
  proof (cases rule: main_cases[of ia K as])
    case init_failed
    then show ?thesis by (simp add: trace_def i)
  next
    case (decoding app2 ev1 rest)
    then show ?thesis by (simp add: trace_def owned_run_append i decode_loop_owned)
  next
    case (draining app2 ev1 rest app3 ev2 rest')
    then show ?thesis
      by (simp add: trace_def owned_run_append i decode_loop_owned[OF draining(2)]
          decode_loop_owned[OF draining(3)])
  next
    case (finished app2 ev1 rest app3 ev2 rest' ev3)
    then show ?thesis
      by (simp add: trace_def owned_run_append i decode_loop_owned[OF finished(2)]
          decode_loop_owned[OF finished(3)] s[OF finished(4)])
  qed
qed

lemma step_fetches:
  "length (filter is_get_decoded_picture (step_events K dec app a)) =
     (if submits dec a \<and> decoded_picture_flag K a then 1 else 0)"
proof -
  have p: "filter is_get_decoded_picture (pool_events K app' a) = []" for app'
    using pool_events_calls[THEN pool_call_kinds] by (auto simp: filter_empty_conv)
  show ?thesis
    by (simp add: step_events_eq submits_def p picture_events_def output_picture_def Let_def
        is_get_decoded_picture_def not_le)
qed

text \<open>
  C8. Along every run, up to any point, the calls that mark a slot displayed are never
  more than the decode calls that announced a decoded picture, and every slot marked
  displayed is one the consumer owns at that moment: it was handed out by a fetch and has
  not been given back since. At the end the consumer owns no slot. Within one step the
  decoded picture is fetched at most once.
\<close>

theorem pictures_fetched_and_returned:
  "owned_run [] (trace (main K ia as)) = Some [] \<and>
   (\<forall>n. marks (take n (trace (main K ia as))) \<le>
          pictures_available K (take n (trace (main K ia as)))) \<and>
   length (filter is_get_decoded_picture (step_events K dec app a)) \<le> 1"
  using main_owned[of K ia as] main_balanced[of K ia as]
  by (simp add: balanced_def step_fetches)

theorem pictures_fetched_and_returned_witness:
  "owned_run [] (trace (main sample_codes sample_init
     [sample_step 1, sample_step 2, sample_no_unit, sample_step 2, sample_step 8])) = Some [] \<and>
   marks (trace (main sample_codes sample_init
     [sample_step 1, sample_step 2, sample_no_unit, sample_step 2, sample_step 8])) = 2 \<and>
   pictures_available sample_codes (trace (main sample_codes sample_init
     [sample_step 1, sample_step 2, sample_no_unit, sample_step 2, sample_step 8])) = 2"
proof -
  have c: "marks (trace (main sample_codes sample_init
     [sample_step 1, sample_step 2, sample_no_unit, sample_step 2, sample_step 8])) = 2 \<and>
   pictures_available sample_codes (trace (main sample_codes sample_init
     [sample_step 1, sample_step 2, sample_no_unit, sample_step 2, sample_step 8])) = 2"
    by code_simp
  from pictures_fetched_and_returned[of sample_codes sample_init
     "[sample_step 1, sample_step 2, sample_no_unit, sample_step 2, sample_step 8]"
     opened_decoder "opened_app sample_init" "sample_step 2"]
  have "owned_run [] (trace (main sample_codes sample_init
     [sample_step 1, sample_step 2, sample_no_unit, sample_step 2, sample_step 8])) = Some []"
    by blast
  with c show ?thesis by blast
qed

text \<open>
  C9 (amended). The process exits with code 1 exactly when \<open>init\<close> fails, which it does
  when the arguments do not parse or the input or the output file does not open. Every
  other run that ends exits with code 0: a failure of \<open>imx_vpu_dec_open\<close> or of an
  allocation is not looked at, and \<open>shutdown\<close> never reads outside the pool array.
\<close>

theorem exit_code_of_run:
  "exit_code (main K ia as) =
     (if init_fails ia then Some 1
      else if fst (main K ia as) = Answers_exhausted then None
      else Some 0) \<and>
   fst (main K ia as) \<noteq> Invalid_read"
  by (cases rule: main_cases[of ia K as]) (simp_all add: exit_code_def)

theorem exit_code_of_run_witness:
  "init_fails (sample_init\<lparr>fopen_fout := None\<rparr>) \<and>
   exit_code (main sample_codes (sample_init\<lparr>fopen_fout := None\<rparr>) []) = Some 1 \<and>
   \<not> init_fails sample_init \<and>
   exit_code (main sample_codes sample_init [sample_no_unit, sample_step 8]) = Some 0"
proof -
  have f: "init_fails (sample_init\<lparr>fopen_fout := None\<rparr>)" by code_simp
  have i: "\<not> init_fails sample_init" by code_simp
  have e: "fst (main sample_codes sample_init [sample_no_unit, sample_step 8]) \<noteq> Answers_exhausted"
    by code_simp
  from exit_code_of_run[of sample_codes "sample_init\<lparr>fopen_fout := None\<rparr>" "[]"] f
  have 1: "exit_code (main sample_codes (sample_init\<lparr>fopen_fout := None\<rparr>) []) = Some 1"
    by simp
  from exit_code_of_run[of sample_codes sample_init "[sample_no_unit, sample_step 8]"] i e
  have 2: "exit_code (main sample_codes sample_init [sample_no_unit, sample_step 8]) = Some 0"
    by simp
  from f i 1 2 show ?thesis by blast
qed

text \<open>
  The claim as stated fails for the engine and for the allocator: when
  \<open>imx_vpu_dec_open\<close> fails, when the scratch buffer is not allocated, and when a pool
  buffer is not allocated, \<open>init\<close> and the steps go on and the run exits with code 0.
\<close>

theorem open_failure_counterexample:
  "dec_open_ret sample_open_fails = IMX_VPU_DEC_RETURN_CODE_ERROR \<and>
   exit_code (main sample_codes sample_open_fails [sample_no_unit, sample_step 8]) = Some 0 \<and>
   bitstream_buffer_allocation sample_scratch_fails = None \<and>
   exit_code (main sample_codes sample_scratch_fails [sample_no_unit, sample_step 8]) = Some 0 \<and>
   dma_allocation sample_third_fails 2 = None \<and>
   exit_code (main sample_codes sample_init [sample_third_fails, sample_no_unit, sample_step 8])
     = Some 0"
  by code_simp

section \<open>Entering drain mode\<close>

lemma pool_call_no_enable:
  "is_pool_call e \<Longrightarrow> \<not> is_drain_query e \<and> \<not> source_exhausted e \<and> \<not> engine_eos K e"
  by (cases e)
     (simp_all add: is_pool_call_def is_drain_query_def source_exhausted_def engine_eos_def)

lemma step_queries:
  "e \<in> set (step_events K dec app a) \<Longrightarrow> \<not> drain_query (\<not> drain_mode dec) e"
proof -
  assume e: "e \<in> set (step_events K dec app a)"
  have n: "\<not> is_drain_query e \<Longrightarrow> \<not> drain_query b e" for b
    by (cases e) (simp_all add: is_drain_query_def drain_query_def)
  have p: "e \<in> set (pool_events K app' a) \<Longrightarrow> \<not> drain_query b e" for app' b
    using pool_events_calls[THEN pool_call_no_query, of e K app' a] n by blast
  have q: "e \<in> set (picture_events K app' a) \<Longrightarrow> \<not> drain_query b e" for app' b
    by (auto simp: picture_events_def output_picture_def Let_def drain_query_def
        split: if_splits)
  from e p q show ?thesis
    by (auto simp: step_events_eq drain_query_def split: if_splits)
qed

lemma step_no_read_in_drain:
  "drain_mode dec \<Longrightarrow> e \<in> set (step_events K dec app a) \<Longrightarrow> \<not> is_read_access_unit e"
  using pool_events_calls[THEN pool_call_kinds, of e K]
  by (auto simp: step_events_eq is_read_access_unit_def picture_events_def output_picture_def
      Let_def split: if_splits)

lemma decode_loop_queries:
  assumes "decode_loop K dec app as = (r, app', evs, rest)"
  shows "\<forall>e\<in>set evs. \<not> drain_query (\<not> drain_mode dec) e"
  using assms
  by (induction rule: decode_loop_induct) (auto dest: step_queries)

lemma decode_loop_no_read_in_drain:
  assumes "decode_loop K dec app as = (r, app', evs, rest)" and "drain_mode dec"
  shows "\<forall>e\<in>set evs. \<not> is_read_access_unit e"
  using assms
  by (induction rule: decode_loop_induct) (auto dest: step_no_read_in_drain)

lemma step_end_of_input:
  assumes "step_ret K dec app a = RETVAL_EOS" and "\<not> drain_mode dec"
  shows "list_ex (\<lambda>e. source_exhausted e \<or> engine_eos K e) (step_events K dec app a)"
  using assms
  by (auto simp: step_ret_eq step_events_eq source_exhausted_def engine_eos_def eos_flag_def
      split: if_splits)

lemma decode_loop_end_of_input:
  assumes "decode_loop K dec app as = (r, app', evs, rest)" and "\<not> drain_mode dec"
  shows "r = Some RETVAL_EOS \<longrightarrow> list_ex (\<lambda>e. source_exhausted e \<or> engine_eos K e) evs"
  using assms
  by (induction rule: decode_loop_induct) (auto dest: step_end_of_input simp: list_ex_iff)

lemma no_enable_drain:
  "\<forall>e\<in>set xs. \<not> is_enable_drain_mode e \<Longrightarrow> before_drain xs = xs \<and> from_drain xs = []"
  by (simp add: before_drain_def from_drain_def)

lemma first_enable_drain:
  "\<forall>e\<in>set xs. \<not> is_enable_drain_mode e \<Longrightarrow>
     before_drain (xs @ Call_imx_vpu_dec_enable_drain_mode n # ys) = xs \<and>
     from_drain (xs @ Call_imx_vpu_dec_enable_drain_mode n # ys) =
       Call_imx_vpu_dec_enable_drain_mode n # ys"
  by (simp add: before_drain_def from_drain_def is_enable_drain_mode_def)

lemma init_events_no_enable: "\<forall>e\<in>set (init_events ia). \<not> is_enable_drain_mode e"
  using init_events_calls[THEN init_call_kinds] by blast

lemma decode_loop_no_enable:
  assumes "decode_loop K dec app as = (r, app', evs, rest)"
  shows "\<forall>e\<in>set evs. \<not> is_enable_drain_mode e"
  using decode_loop_step_calls[OF assms] step_call_kinds by blast

lemma not_query: "\<not> is_drain_query e \<Longrightarrow> \<not> drain_query b e"
  by (cases e) (simp_all add: is_drain_query_def drain_query_def)

lemma main_drain_frames:
  "drain_frames (trace (main K ia as)) =
     replicate (length (drain_frames (trace (main K ia as)))) drain_frame"
proof -
  from main_submissions[of K ia as] obtain k2 where
    "map snd (filter fst (submissions False (trace (main K ia as)))) = replicate k2 drain_frame"
    by blast
  then have "drain_frames (trace (main K ia as)) = replicate k2 drain_frame"
    by (simp add: drain_frames_def)
  then show ?thesis by simp
qed

text \<open>
  C7 (amended). Every unit submitted while drain mode is active is the empty unit: no
  data, size 0, no codec data, and no context. \<open>main\<close> enables drain mode only after its
  first loop has ended, that is after a read of the input found no access unit or
  returned 0, or after the engine set the end-of-stream flag in an output code, whatever
  input is left then. Before that no drain-mode query answers true; after it every query
  answers true, the input is not read again and the drain mode is not switched again.
\<close>

theorem drain_mode_protocol:
  "drain_frames (trace (main K ia as)) =
     replicate (length (drain_frames (trace (main K ia as))))
       \<lparr>virtual_address = None, data_size = 0, codec_data = None, codec_data_size = 0,
        frame_context = 0\<rparr> \<and>
   (from_drain (trace (main K ia as)) \<noteq> [] \<longrightarrow>
      hd (from_drain (trace (main K ia as))) = Call_imx_vpu_dec_enable_drain_mode 1 \<and>
      list_ex (\<lambda>e. source_exhausted e \<or> engine_eos K e) (before_drain (trace (main K ia as)))) \<and>
   list_all (\<lambda>e. \<not> drain_query True e) (before_drain (trace (main K ia as))) \<and>
   list_all (\<lambda>e. \<not> drain_query False e \<and> \<not> is_read_access_unit e \<and> \<not> is_enable_drain_mode e)
     (tl (from_drain (trace (main K ia as))))"
proof -
  let ?tr = "trace (main K ia as)"
  have frames: "drain_frames ?tr = replicate (length (drain_frames ?tr))
       \<lparr>virtual_address = None, data_size = 0, codec_data = None, codec_data_size = 0,
        frame_context = 0\<rparr>"
    using main_drain_frames[of K ia as] by (simp add: drain_frame_def)
  have iq: "\<forall>e\<in>set (init_events ia). \<not> drain_query True e"
    using init_events_calls[THEN init_call_kinds] not_query by blast
  have rest: "(from_drain ?tr \<noteq> [] \<longrightarrow>
      hd (from_drain ?tr) = Call_imx_vpu_dec_enable_drain_mode 1 \<and>
      list_ex (\<lambda>e. source_exhausted e \<or> engine_eos K e) (before_drain ?tr)) \<and>
   list_all (\<lambda>e. \<not> drain_query True e) (before_drain ?tr) \<and>
   list_all (\<lambda>e. \<not> drain_query False e \<and> \<not> is_read_access_unit e \<and> \<not> is_enable_drain_mode e)
     (tl (from_drain ?tr))"
  proof (cases rule: main_cases[of ia K as])
    case init_failed
    have tr: "?tr = init_events ia" by (simp add: init_failed(2) trace_def)
    show ?thesis
      unfolding tr using no_enable_drain[OF init_events_no_enable, of ia] iq
      by (simp add: list_all_iff)
  next
    case (decoding app2 ev1 rest)
    have tr: "?tr = init_events ia @ ev1" by (simp add: decoding(3) trace_def)
    have ne: "\<forall>e\<in>set (init_events ia @ ev1). \<not> is_enable_drain_mode e"
      using init_events_no_enable[of ia] decode_loop_no_enable[OF decoding(2)] by auto
    have q: "\<forall>e\<in>set ev1. \<not> drain_query True e"
      using decode_loop_queries[OF decoding(2)] by simp
    show ?thesis
      unfolding tr using no_enable_drain[OF ne] iq q
      by (auto simp: list_all_iff)
  next
    case (draining app2 ev1 rest app3 ev2 rest')
    have tr: "?tr = (init_events ia @ ev1) @ Call_imx_vpu_dec_enable_drain_mode 1 # ev2"
      by (simp add: draining(4) trace_def)
    have ne: "\<forall>e\<in>set (init_events ia @ ev1). \<not> is_enable_drain_mode e"
      using init_events_no_enable[of ia] decode_loop_no_enable[OF draining(2)] by auto
    have q: "\<forall>e\<in>set ev1. \<not> drain_query True e"
      using decode_loop_queries[OF draining(2)] by simp
    have x: "list_ex (\<lambda>e. source_exhausted e \<or> engine_eos K e) ev1"
      using decode_loop_end_of_input[OF draining(2)] by simp
    have d: "\<forall>e\<in>set ev2. \<not> drain_query False e \<and> \<not> is_read_access_unit e \<and>
               \<not> is_enable_drain_mode e"
      using decode_loop_queries[OF draining(3)] decode_loop_no_read_in_drain[OF draining(3)]
        decode_loop_no_enable[OF draining(3)] by simp
    show ?thesis
      unfolding tr using first_enable_drain[OF ne, of 1 ev2] iq q x d
      by (auto simp: list_all_iff list_ex_iff)
  next
    case (finished app2 ev1 rest app3 ev2 rest' ev3)
    have tr: "?tr = (init_events ia @ ev1) @ Call_imx_vpu_dec_enable_drain_mode 1 # (ev2 @ ev3)"
      by (simp add: finished(5) trace_def)
    have ne: "\<forall>e\<in>set (init_events ia @ ev1). \<not> is_enable_drain_mode e"
      using init_events_no_enable[of ia] decode_loop_no_enable[OF finished(2)] by auto
    have q: "\<forall>e\<in>set ev1. \<not> drain_query True e"
      using decode_loop_queries[OF finished(2)] by simp
    have x: "list_ex (\<lambda>e. source_exhausted e \<or> engine_eos K e) ev1"
      using decode_loop_end_of_input[OF finished(2)] by simp
    have d: "\<forall>e\<in>set ev2. \<not> drain_query False e \<and> \<not> is_read_access_unit e \<and>
               \<not> is_enable_drain_mode e"
      using decode_loop_queries[OF finished(3)] decode_loop_no_read_in_drain[OF finished(3)]
        decode_loop_no_enable[OF finished(3)] by simp
    have s: "\<forall>e\<in>set ev3. \<not> drain_query False e \<and> \<not> is_read_access_unit e \<and>
               \<not> is_enable_drain_mode e"
      using shutdown_calls[OF finished(4), THEN shutdown_call_kinds] not_query by blast
    show ?thesis
      unfolding tr using first_enable_drain[OF ne, of 1 "ev2 @ ev3"] iq q x d s
      by (auto simp: list_all_iff list_ex_iff)
  qed
  from frames rest show ?thesis by blast
qed

theorem drain_mode_protocol_witness:
  "from_drain (trace (main sample_codes sample_init
     [sample_step 0, sample_no_unit, sample_step 2, sample_step 8])) \<noteq> [] \<and>
   hd (from_drain (trace (main sample_codes sample_init
     [sample_step 0, sample_no_unit, sample_step 2, sample_step 8])))
     = Call_imx_vpu_dec_enable_drain_mode 1 \<and>
   list_ex (\<lambda>e. source_exhausted e \<or> engine_eos sample_codes e)
     (before_drain (trace (main sample_codes sample_init
        [sample_step 0, sample_no_unit, sample_step 2, sample_step 8]))) \<and>
   length (drain_frames (trace (main sample_codes sample_init
     [sample_step 0, sample_no_unit, sample_step 2, sample_step 8]))) = 2"
proof -
  let ?tr = "trace (main sample_codes sample_init
     [sample_step 0, sample_no_unit, sample_step 2, sample_step 8])"
  have n: "from_drain ?tr \<noteq> []" by code_simp
  have l: "length (drain_frames ?tr) = 2" by code_simp
  from drain_mode_protocol[of sample_codes sample_init
     "[sample_step 0, sample_no_unit, sample_step 2, sample_step 8]"] n
  have "hd (from_drain ?tr) = Call_imx_vpu_dec_enable_drain_mode 1 \<and>
      list_ex (\<lambda>e. source_exhausted e \<or> engine_eos sample_codes e) (before_drain ?tr)"
    by blast
  with n l show ?thesis by blast
qed

text \<open>
  The claim as stated fails when the engine sets the end-of-stream flag while the source
  still delivers units: the first loop ends and \<open>main\<close> enables drain mode, although no
  read of the input has found it exhausted.
\<close>

theorem drain_before_exhaustion_counterexample:
  "list_ex is_enable_drain_mode (trace (main sample_codes sample_init [sample_step 8, sample_step 8]))
   \<and> \<not> list_ex source_exhausted (trace (main sample_codes sample_init [sample_step 8, sample_step 8]))
   \<and> exit_code (main sample_codes sample_init [sample_step 8, sample_step 8]) = Some 0"
  by code_simp

section \<open>A session without initial info\<close>

lemma step_without_initial_info:
  assumes "\<not> initial_info_flag K a"
  shows "num_framebuffers (step_app K dec app a) = num_framebuffers app \<and>
         framebuffers (step_app K dec app a) = framebuffers app \<and>
         fb_dmabuffers (step_app K dec app a) = fb_dmabuffers app \<and>
         filter is_pool_build (step_events K dec app a) = [] \<and>
         allocated (step_events K dec app a) = []"
  using assms
  by (simp add: step_app_eq step_events_eq pool_app_def pool_events_def picture_events_def
      output_picture_def Let_def is_pool_build_def)

lemma step_bitstream_buffer:
  "bitstream_buffer (step_app K dec app a) = bitstream_buffer app"
  by (simp add: step_app_eq)

lemma decode_loop_bitstream_buffer:
  assumes "decode_loop K dec app as = (r, app', evs, rest)"
  shows "bitstream_buffer app' = bitstream_buffer app"
  using assms
  by (induction rule: decode_loop_induct) (simp_all add: step_bitstream_buffer)

lemma decode_loop_without_initial_info:
  assumes "decode_loop K dec app as = (r, app', evs, rest)"
    and "\<forall>a\<in>set as. \<not> initial_info_flag K a"
  shows "num_framebuffers app' = num_framebuffers app \<and>
         framebuffers app' = framebuffers app \<and>
         fb_dmabuffers app' = fb_dmabuffers app \<and>
         filter is_pool_build evs = [] \<and> allocated evs = []"
  using assms
  by (induction rule: decode_loop_induct) (simp_all add: step_without_initial_info)

lemma decode_loop_rest:
  assumes "decode_loop K dec app as = (r, app', evs, rest)"
  shows "\<exists>zs. as = zs @ rest"
  using assms
proof (induction as arbitrary: app evs)
  case Nil
  then show ?case by simp
next
  case (Cons a as)
  show ?case
  proof (cases "step_ret K dec app a = RETVAL_EOS")
    case True
    with Cons.prems have "rest = as"
      by (simp add: decode_loop_Cons del: decode_loop.simps)
    then show ?thesis by auto
  next
    case False
    with Cons.prems obtain evs' where
      "decode_loop K dec (step_app K dec app a) as = (r, app', evs', rest)"
      by (auto simp: decode_loop_Cons simp del: decode_loop.simps split: prod.splits)
    from Cons.IH[OF this] obtain zs where "as = zs @ rest" by blast
    then have "a # as = (a # zs) @ rest" by simp
    then show ?thesis by blast
  qed
qed

text \<open>The first loop ends at the latest when a read finds no access unit.\<close>

lemma regular_loop_ends:
  assumes "\<not> drain_mode dec" and "read_au_end_offset a \<le> read_au_start_offset a"
  shows "\<exists>app' evs zs. decode_loop K dec app (xs @ a # ys) = (Some RETVAL_EOS, app', evs, zs @ ys)"
proof (induction xs arbitrary: app)
  case Nil
  have "step_ret K dec app a = RETVAL_EOS" using assms by (simp add: step_ret_eq)
  then have "decode_loop K dec app (a # ys) =
      (Some RETVAL_EOS, step_app K dec app a, step_events K dec app a, [] @ ys)"
    by (simp add: decode_loop_Cons del: decode_loop.simps)
  then show ?case by (metis append_Nil)
next
  case (Cons x xs)
  show ?case
  proof (cases "step_ret K dec app x = RETVAL_EOS")
    case True
    then have "decode_loop K dec app ((x # xs) @ a # ys) =
      (Some RETVAL_EOS, step_app K dec app x, step_events K dec app x, (xs @ [a]) @ ys)"
      by (simp add: decode_loop_Cons del: decode_loop.simps)
    then show ?thesis by blast
  next
    case False
    from Cons.IH[of "step_app K dec app x"] obtain app' evs zs where
      "decode_loop K dec (step_app K dec app x) (xs @ a # ys) = (Some RETVAL_EOS, app', evs, zs @ ys)"
      by blast
    with False have "decode_loop K dec app ((x # xs) @ a # ys) =
      (Some RETVAL_EOS, app', step_events K dec app x @ evs, zs @ ys)"
      by (simp add: decode_loop_Cons del: decode_loop.simps)
    then show ?thesis by blast
  qed
qed

text \<open>The drain loop ends at the latest when the engine sets the end-of-stream flag.\<close>

lemma drain_loop_ends:
  assumes "drain_mode dec" and "\<exists>d\<in>set as. eos_flag K d"
  shows "\<exists>app' evs rest. decode_loop K dec app as = (Some RETVAL_EOS, app', evs, rest)"
  using assms(2)
proof (induction as arbitrary: app)
  case Nil
  then show ?case by simp
next
  case (Cons a as)
  show ?case
  proof (cases "step_ret K dec app a = RETVAL_EOS")
    case True
    then show ?thesis by (simp add: decode_loop_Cons del: decode_loop.simps)
  next
    case False
    with assms(1) have "\<not> eos_flag K a" by (simp add: step_ret_eq split: if_splits)
    with Cons.prems have "\<exists>d\<in>set as. eos_flag K d" by auto
    from Cons.IH[OF this, of "step_app K dec app a"] obtain app' evs rest where
      "decode_loop K dec (step_app K dec app a) as = (Some RETVAL_EOS, app', evs, rest)"
      by blast
    with False show ?thesis by (simp add: decode_loop_Cons del: decode_loop.simps)
  qed
qed

lemma shutdown_empty_pool:
  assumes "num_framebuffers app = 0" "framebuffers app = None" "fb_dmabuffers app = None"
    and "shutdown app = Some (app', r, evs)"
  shows "filter is_release evs =
           [Call_free_framebuffers None, Call_free_fb_dmabuffers None,
            Call_imx_vpu_dma_buffer_deallocate (bitstream_buffer app)]"
  using assms
  by (auto simp: shutdown_def pool_reads_def is_release_def)

lemma allocated_none: "\<forall>e\<in>set xs. \<not> is_allocate e \<Longrightarrow> allocated xs = []"
proof (induction xs)
  case Nil
  then show ?case by simp
next
  case (Cons e xs)
  then have "\<not> is_allocate e" and "allocated xs = []" by simp_all
  then show ?case by (cases e) (simp_all add: is_allocate_def)
qed

lemma init_events_allocated:
  "\<not> init_fails ia \<Longrightarrow> allocated (init_events ia) = [bitstream_buffer_allocation ia]"
  by (simp add: init_events_def init_allocated)

text \<open>
  Without the end-of-stream flag the drain loop does not end: it is still running after
  any number of such answers.
\<close>

lemma drain_loop_runs_on:
  assumes "drain_mode dec" and "list_all (\<lambda>s. \<not> eos_flag K s) as"
  shows "fst (decode_loop K dec app as) = None"
  using assms(2)
proof (induction as arbitrary: app)
  case Nil
  then show ?case by simp
next
  case (Cons a as)
  then have "step_ret K dec app a \<noteq> RETVAL_EOS"
    using assms(1) by (simp add: step_ret_eq)
  with Cons show ?case
    by (simp add: decode_loop_Cons case_prod_beta del: decode_loop.simps)
qed

text \<open>
  C10 (amended). Let \<open>init\<close> succeed, let no output code of the whole session, the drain
  steps included, have the initial-info flag, let the read of some step find no access
  unit, and let the engine set the end-of-stream flag in some later step (without it the
  drain loop does not end). Then the run ends with exit code 0. A regular step whose read
  finds no access unit returns \<open>RETVAL_EOS\<close> after the drain-mode query and the read
  alone, without a decode call. No pool is built in the run: the only allocation is the
  scratch buffer of \<open>init\<close>, and the pool fields are still as \<open>memset\<close> left them, count
  0 and both arrays \<open>NULL\<close>. \<open>shutdown\<close> then frees the two \<open>NULL\<close> arrays, which frees
  nothing, and gives back exactly one buffer, the scratch buffer.
\<close>

theorem teardown_without_pool:
  assumes "\<not> init_fails ia"
    and "list_all (\<lambda>s. \<not> initial_info_flag K s) (xs @ a # ys)"
    and "read_au_end_offset a \<le> read_au_start_offset a"
    and "list_ex (eos_flag K) ys"
  shows "exit_code (main K ia (xs @ a # ys)) = Some 0 \<and>
         step_ret K opened_decoder app a = RETVAL_EOS \<and>
         step_events K opened_decoder app a =
           [Call_imx_vpu_dec_is_drain_mode_enabled False,
            Call_h264_ctx_read_access_unit (read_access_unit_ret a) (read_au_start_offset a)
              (read_au_end_offset a)] \<and>
         filter is_pool_build (trace (main K ia (xs @ a # ys))) = [] \<and>
         allocated (trace (main K ia (xs @ a # ys))) = [bitstream_buffer_allocation ia] \<and>
         num_framebuffers (final_app (main K ia (xs @ a # ys))) = 0 \<and>
         framebuffers (final_app (main K ia (xs @ a # ys))) = None \<and>
         fb_dmabuffers (final_app (main K ia (xs @ a # ys))) = None \<and>
         filter is_release (trace (main K ia (xs @ a # ys))) =
           [Call_free_framebuffers None, Call_free_fb_dmabuffers None,
            Call_imx_vpu_dma_buffer_deallocate (bitstream_buffer_allocation ia)]"
proof -
  let ?as = "xs @ a # ys"
  have noinfo: "\<forall>s\<in>set ?as. \<not> initial_info_flag K s"
    using assms(2) by (simp add: list_all_iff)
  have step: "step_ret K opened_decoder app a = RETVAL_EOS \<and>
         step_events K opened_decoder app a =
           [Call_imx_vpu_dec_is_drain_mode_enabled False,
            Call_h264_ctx_read_access_unit (read_access_unit_ret a) (read_au_start_offset a)
              (read_au_end_offset a)]"
    using assms(3) by (simp add: step_ret_eq step_events_eq)
  from regular_loop_ends[OF opened_decoder_regular assms(3), of K "opened_app ia" xs ys]
  obtain app2 ev1 zs where
    l1: "decode_loop K opened_decoder (opened_app ia) ?as = (Some RETVAL_EOS, app2, ev1, zs @ ys)"
    by blast
  have "\<exists>d\<in>set (zs @ ys). eos_flag K d" using assms(4) by (auto simp: list_ex_iff)
  from drain_loop_ends[OF draining_decoder_drains this, of app2]
  obtain app3 ev2 rest' where
    l2: "decode_loop K draining_decoder app2 (zs @ ys) = (Some RETVAL_EOS, app3, ev2, rest')"
    by blast
  from decode_loop_rest[OF l1] obtain zs' where e: "?as = zs' @ (zs @ ys)" by blast
  have "set ?as = set zs' \<union> set (zs @ ys)" by (simp only: e set_append)
  then have sub: "set (zs @ ys) \<subseteq> set ?as" by blast
  have f1: "num_framebuffers app2 = 0 \<and> framebuffers app2 = None \<and> fb_dmabuffers app2 = None \<and>
      filter is_pool_build ev1 = [] \<and> allocated ev1 = []"
    using decode_loop_without_initial_info[OF l1 noinfo] by (simp add: opened_app_fields[OF assms(1)])
  have f2: "num_framebuffers app3 = 0 \<and> framebuffers app3 = None \<and> fb_dmabuffers app3 = None \<and>
      filter is_pool_build ev2 = [] \<and> allocated ev2 = []"
    using decode_loop_without_initial_info[OF l2] noinfo sub f1 by auto
  have b3: "bitstream_buffer app3 = bitstream_buffer_allocation ia"
    using decode_loop_bitstream_buffer[OF l1] decode_loop_bitstream_buffer[OF l2]
    by (simp add: opened_app_fields[OF assms(1)])
  have r1: "filter is_release ev1 = []"
    using decode_loop_step_calls[OF l1] by (rule step_calls_no_release)
  have r2: "filter is_release ev2 = []"
    using decode_loop_step_calls[OF l2] by (rule step_calls_no_release)
  have i: "filter is_pool_build (init_events ia) = [] \<and> filter is_release (init_events ia) = []"
    using init_events_calls[THEN init_call_kinds] by (auto simp: filter_empty_conv)
  have run: "exit_code (main K ia ?as) = Some 0 \<and>
         filter is_pool_build (trace (main K ia ?as)) = [] \<and>
         allocated (trace (main K ia ?as)) = [bitstream_buffer_allocation ia] \<and>
         num_framebuffers (final_app (main K ia ?as)) = 0 \<and>
         framebuffers (final_app (main K ia ?as)) = None \<and>
         fb_dmabuffers (final_app (main K ia ?as)) = None \<and>
         filter is_release (trace (main K ia ?as)) =
           [Call_free_framebuffers None, Call_free_fb_dmabuffers None,
            Call_imx_vpu_dma_buffer_deallocate (bitstream_buffer_allocation ia)]"
  proof (cases rule: main_cases[of ia K ?as])
    case init_failed
    with assms(1) show ?thesis by simp
  next
    case (decoding app2' ev1' rest)
    with l1 show ?thesis by simp
  next
    case (draining app2' ev1' rest app3' ev2' rest'')
    with l1 l2 show ?thesis by simp
  next
    case (finished app2' ev1' rest app3' ev2' rest'' ev3)
    from finished(2) l1 have e1: "app2' = app2" "ev1' = ev1" "rest = zs @ ys" by simp_all
    from finished(3) l2 e1 have e2: "app3' = app3" "ev2' = ev2" by simp_all
    have s: "shutdown app3 = Some (app3, RETVAL_OK, ev3)" using finished(4) e2 by simp
    have p3: "filter is_pool_build ev3 = [] \<and> allocated ev3 = []"
      using shutdown_calls[OF s, THEN shutdown_call_kinds]
      by (auto simp: filter_empty_conv intro: allocated_none)
    have r3: "filter is_release ev3 =
           [Call_free_framebuffers None, Call_free_fb_dmabuffers None,
            Call_imx_vpu_dma_buffer_deallocate (bitstream_buffer_allocation ia)]"
      using shutdown_empty_pool[OF _ _ _ s] f2 b3 by simp
    show ?thesis
      using f1 f2 p3 r1 r2 r3 i
      by (simp add: finished(5) e1 e2 exit_code_def trace_def final_app_def
          init_events_allocated[OF assms(1)] is_pool_build_def is_release_def)
  qed
  from step run show ?thesis by blast
qed

theorem teardown_without_pool_witness:
  "exit_code (main sample_codes sample_init
     ([sample_step 2] @ sample_no_unit # [sample_step 4, sample_step 8])) = Some 0 \<and>
   allocated (trace (main sample_codes sample_init
     ([sample_step 2] @ sample_no_unit # [sample_step 4, sample_step 8]))) = [Some 50] \<and>
   filter is_release (trace (main sample_codes sample_init
     ([sample_step 2] @ sample_no_unit # [sample_step 4, sample_step 8]))) =
     [Call_free_framebuffers None, Call_free_fb_dmabuffers None,
      Call_imx_vpu_dma_buffer_deallocate (Some 50)]"
proof -
  have 1: "\<not> init_fails sample_init" by code_simp
  have 2: "list_all (\<lambda>s. \<not> initial_info_flag sample_codes s)
             ([sample_step 2] @ sample_no_unit # [sample_step 4, sample_step 8])" by code_simp
  have 3: "read_au_end_offset sample_no_unit \<le> read_au_start_offset sample_no_unit"
    by code_simp
  have 4: "list_ex (eos_flag sample_codes) [sample_step 4, sample_step 8]" by code_simp
  have b: "bitstream_buffer_allocation sample_init = Some 50" by code_simp
  from teardown_without_pool[OF 1 2 3 4, of "opened_app sample_init"] b
  show ?thesis by simp
qed

text \<open>
  The claim as stated fails when the engine sets the initial-info flag in a drain step.
  In the run below the first read finds no access unit, so the source is exhausted before
  any initial-info event and the step returns \<open>RETVAL_EOS\<close> without a decode call; the
  first drain step then carries the flag and builds a pool of two buffers, which
  \<open>shutdown\<close> finds in place of the zeroed pool fields.
\<close>

theorem pool_built_in_drain_counterexample:
  "read_au_end_offset sample_no_unit \<le> read_au_start_offset sample_no_unit \<and>
   step_ret sample_codes opened_decoder (opened_app sample_init) sample_no_unit = RETVAL_EOS \<and>
   filter is_decode
     (step_events sample_codes opened_decoder (opened_app sample_init) sample_no_unit) = [] \<and>
   exit_code (main sample_codes sample_init [sample_no_unit, sample_step 1, sample_step 8])
     = Some 0 \<and>
   allocated (trace (main sample_codes sample_init [sample_no_unit, sample_step 1, sample_step 8]))
     = [Some 50, Some 200, Some 201] \<and>
   num_framebuffers
     (final_app (main sample_codes sample_init [sample_no_unit, sample_step 1, sample_step 8])) = 2 \<and>
   fb_dmabuffers
     (final_app (main sample_codes sample_init [sample_no_unit, sample_step 1, sample_step 8]))
     = Some [Some 200, Some 201] \<and>
   deallocated (trace (main sample_codes sample_init [sample_no_unit, sample_step 1, sample_step 8]))
     = [Some 200, Some 201, Some 50]"
  by code_simp

section \<open>Teardown\<close>

text \<open>
  C5. The code departs from the claim when the engine sets the initial-info flag a second
  time: the block of lines 232 to 280 allocates a fresh pool and overwrites the pointers to
  the previous one without giving its buffers back, and \<open>shutdown\<close> releases only the
  pool it still finds in \<open>AppData\<close>. In the run below the allocator hands out the scratch
  buffer 50 and the pool buffers 300 and 400; buffer 300 is never deallocated.
\<close>

theorem replaced_pool_is_not_released:
  "exit_code (main sample_codes sample_init
     [sample_pool_of_one 300, sample_pool_of_one 400, sample_no_unit, sample_step 8]) = Some 0 \<and>
   allocated (trace (main sample_codes sample_init
     [sample_pool_of_one 300, sample_pool_of_one 400, sample_no_unit, sample_step 8]))
     = [Some 50, Some 300, Some 400] \<and>
   deallocated (trace (main sample_codes sample_init
     [sample_pool_of_one 300, sample_pool_of_one 400, sample_no_unit, sample_step 8]))
     = [Some 400, Some 50]"
  by code_simp

text \<open>
  What does hold of the teardown: in a run that ends with exit code 0 the calls of
  \<open>shutdown\<close> occur exactly once, as one block in the order of the source, on the state
  the loops left, and they give back the buffers of the pool built last and then the
  scratch buffer.
\<close>

lemma step_call_not_shutdown: "is_step_call e \<Longrightarrow> \<not> is_shutdown_call e"
  by (cases e) (simp_all add: is_step_call_def is_shutdown_call_def)

lemma init_events_not_shutdown:
  "\<not> init_fails ia \<Longrightarrow> filter is_shutdown_call (init_events ia) = []"
  by (auto simp: init_events_def init_def init_fails_def Let_def is_shutdown_call_def
      split: prod.splits)

lemma teardown_once_in_order:
  assumes "exit_code (main K ia as) = Some 0"
  shows "shutdown (final_app (main K ia as)) =
           Some (final_app (main K ia as), RETVAL_OK,
                 filter is_shutdown_call (trace (main K ia as)))"
proof (cases rule: main_cases[of ia K as])
  case init_failed
  with assms show ?thesis by (simp add: exit_code_def)
next
  case (decoding app2 ev1 rest)
  with assms show ?thesis by (simp add: exit_code_def)
next
  case (draining app2 ev1 rest app3 ev2 rest')
  with assms show ?thesis by (simp add: exit_code_def)
next
  case (finished app2 ev1 rest app3 ev2 rest' ev3)
  have 1: "filter is_shutdown_call ev1 = []"
    using decode_loop_step_calls[OF finished(2)] step_call_not_shutdown
    by (auto simp: filter_empty_conv)
  have 2: "filter is_shutdown_call ev2 = []"
    using decode_loop_step_calls[OF finished(3)] step_call_not_shutdown
    by (auto simp: filter_empty_conv)
  have 3: "filter is_shutdown_call ev3 = ev3"
    using shutdown_calls[OF finished(4)] by (auto simp: filter_id_conv)
  show ?thesis
    by (simp add: finished(4,5) final_app_def trace_def 1 2 3
        init_events_not_shutdown[OF finished(1)] is_shutdown_call_def)
qed

end
